theory Spec2Isabelle
  imports Main "HOL-Library.Word"
begin

section \<open>Wide strings and fixed arrays\<close>

text \<open>
  A \<open>WCHAR\<close> is a 16-bit code unit and a \<open>DWORD\<close> a 32-bit value. A wide string
  handed to the program (an argument token, a string literal, the system directory) is
  the list of the code units stored at its address; the terminating NUL sits right
  after the last element of the list. Every function below reads such a string the way
  the C code does: up to the first NUL, or up to the end of the list when no element is
  NUL. \<open>cstr\<close> is the text a C function sees.

  Lengths and indices are natural numbers: the command line of a Windows process has
  fewer than 32768 code units, so no \<open>size_t\<close>, \<open>UINT\<close> or \<open>int\<close> computation of the
  program wraps around.
\<close>

type_synonym WCHAR = "16 word"
type_synonym DWORD = "32 word"
type_synonym wstring = "WCHAR list"

definition DQUOTE :: WCHAR where "DQUOTE = 0x22"
definition BACKSLASH :: WCHAR where "BACKSLASH = 0x5C"
definition SEMICOLON :: WCHAR where "SEMICOLON = 0x3B"
definition SPACE :: WCHAR where "SPACE = 0x20"

text \<open>The wide literal \<open>L"..."\<close> of an ASCII text.\<close>

definition wstr :: "string \<Rightarrow> wstring" where
  "wstr s = map (\<lambda>c. word_of_nat (of_char c)) s"

definition cstr :: "wstring \<Rightarrow> wstring" where
  "cstr s = takeWhile (\<lambda>c. c \<noteq> 0) s"

text \<open>\<open>lstrlenW\<close>: the number of code units before the terminator.\<close>

definition lstrlenW :: "wstring \<Rightarrow> nat" where
  "lstrlenW s = length (cstr s)"

text \<open>\<open>src[i]\<close> on a string: the terminator is read at the position after the list.\<close>

definition char_at :: "wstring \<Rightarrow> nat \<Rightarrow> WCHAR" where
  "char_at s i = (if i < length s then s ! i else 0)"

text \<open>
  A write \<open>a[i] = v\<close> into a fixed array: outside the array the C program has no
  defined behaviour, which the model reports as \<open>None\<close>.
\<close>

definition store :: "WCHAR list \<Rightarrow> nat \<Rightarrow> WCHAR \<Rightarrow> WCHAR list option" where
  "store a i v = (if i < length a then Some (a[i := v]) else None)"

definition CMD_BUFFER_SIZE :: nat where "CMD_BUFFER_SIZE = 1024"

text \<open>\<open>MAX_PATH\<close> comes from the platform header \<open>windows.h\<close>.\<close>

definition MAX_PATH :: nat where "MAX_PATH = 260"

section \<open>AppendStr and AppendEscaped\<close>

text \<open>
  The result of an append: \<open>Overrun\<close> is a write outside the destination array,
  \<open>Rejected\<close> is the return value \<open>false\<close>, \<open>Appended dest curLen\<close> is the return
  value \<open>true\<close> with the updated array and length.
\<close>

datatype append = Overrun | Rejected | Appended "WCHAR list" nat

text \<open>The copy loop \<open>*destPtr++ = *srcPtr++\<close>, started at offset \<open>d\<close>.\<close>

fun copy_chars :: "WCHAR list \<Rightarrow> nat \<Rightarrow> WCHAR list \<Rightarrow> WCHAR list option" where
  "copy_chars dest d [] = Some dest"
| "copy_chars dest d (c # cs) =
     (case store dest d c of
        None \<Rightarrow> None
      | Some dest' \<Rightarrow> copy_chars dest' (Suc d) cs)"

definition AppendStr :: "WCHAR list \<Rightarrow> nat \<Rightarrow> wstring \<Rightarrow> nat \<Rightarrow> append" where
  "AppendStr dest destSize src curLen =
     (let srcLen = lstrlenW src in
      if curLen + srcLen \<ge> destSize then Rejected
      else
        (case copy_chars dest curLen (take srcLen src) of
           None \<Rightarrow> Overrun
         | Some dest' \<Rightarrow>
             (case store dest' (curLen + srcLen) 0 of
                None \<Rightarrow> Overrun
              | Some dest'' \<Rightarrow> Appended dest'' (curLen + srcLen))))"

text \<open>
  \<open>AppendEscaped\<close> walks \<open>src\<close> up to its terminator; \<open>temp\<close> is the two-element
  array \<open>{ src[i], L'\0' }\<close>.
\<close>

fun AppendEscaped :: "WCHAR list \<Rightarrow> nat \<Rightarrow> wstring \<Rightarrow> nat \<Rightarrow> append" where
  "AppendEscaped dest destSize [] curLen = Appended dest curLen"
| "AppendEscaped dest destSize (c # cs) curLen =
     (if c = 0 then Appended dest curLen
      else
        (case (if c = DQUOTE
               then AppendStr dest destSize [BACKSLASH, DQUOTE] curLen
               else AppendStr dest destSize [c, 0] curLen) of
           Overrun \<Rightarrow> Overrun
         | Rejected \<Rightarrow> Rejected
         | Appended dest' curLen' \<Rightarrow> AppendEscaped dest' destSize cs curLen'))"

section \<open>The host platform\<close>

text \<open>
  What the program obtains from Windows, one field per interface:
  \<^item> \<open>argv\<close>: the result of \<open>CommandLineToArgvW(GetCommandLineW(), &argc)\<close>, \<open>None\<close>
    for a NULL result; \<open>argc\<close> is the length of the list;
  \<^item> \<open>compare_nocase\<close>: the value of \<open>lstrcmpiW\<close> on two texts (0 when they match
    without regard to case);
  \<^item> \<open>system_directory\<close>: the directory \<open>GetSystemDirectoryW\<close> reports, \<open>None\<close> when
    the call fails;
  \<^item> \<open>file_exists\<close>: whether \<open>GetFileAttributesW\<close> returns something other than
    \<open>INVALID_FILE_ATTRIBUTES\<close> for a path;
  \<^item> \<open>cmd_uninit\<close>: the indeterminate initial content of the stack array \<open>cmd\<close>;
  \<^item> \<open>create_process\<close>: what \<open>CreateProcessW\<close> does with a command line: it fails
    with a last-error code, or it creates a child, which either never terminates or
    terminates with an exit code.
\<close>

datatype child = Never_exits | Exits DWORD

datatype spawn = SpawnFailed DWORD | Spawned child

record host =
  argv :: "wstring list option"
  compare_nocase :: "wstring \<Rightarrow> wstring \<Rightarrow> int"
  system_directory :: "wstring option"
  file_exists :: "wstring \<Rightarrow> bool"
  cmd_uninit :: "nat \<Rightarrow> WCHAR"
  create_process :: "wstring \<Rightarrow> spawn"

text \<open>The two compile-time switches, \<open>ENABLE_ERROR_DIALOGS\<close> and \<open>_DEBUG\<close>.\<close>

record build =
  ENABLE_ERROR_DIALOGS :: bool
  DEBUG :: bool

text \<open>
  The text of an error dialog: a literal of the source, the text \<open>FormatMessageW\<close>
  produces for an error code, or (debug build) that text combined with the command line
  by \<open>wsprintfW\<close>.
\<close>

datatype message = Literal string | SystemError DWORD | DebugError DWORD wstring

text \<open>
  The observable actions of a run, in order. \<open>UsageHelp\<close> is the \<open>MessageBoxW\<close> call
  with the static usage text and the caption \<open>PS-Launcher Help\<close>; \<open>ErrorDialog\<close> is
  a dialog shown by \<open>ShowError\<close>, with its text and caption.
\<close>

datatype handle = hProcess | hThread

datatype event =
    UsageHelp
  | ErrorDialog message string
  | LocalFree
  | ProcessCreated wstring
  | ProcessCreationFailed wstring DWORD
  | WaitForSingleObject
  | GetExitCodeProcess DWORD
  | CloseHandle handle

text \<open>
  How a run ends: \<open>WinMain\<close> returns a code, or it blocks for ever in
  \<open>WaitForSingleObject\<close>, or it writes outside an array.
\<close>

datatype outcome = Exit DWORD "event list" | Blocked "event list" | Crash

text \<open>
  Modelled from the spec: the function \<open>ShowError\<close> that the macro of the same name
  calls when \<open>ENABLE_ERROR_DIALOGS\<close> is defined is not part of the source file. The
  specification describes it as an interactive dialog that displays the error; it is
  taken to show one dialog with the given text and caption.
\<close>

definition ShowError_dialog :: "message \<Rightarrow> string \<Rightarrow> event list" where
  "ShowError_dialog msg title = [ErrorDialog msg title]"

text \<open>
  The macro \<open>ShowError\<close>: it expands to \<open>((void)0)\<close> unless \<open>ENABLE_ERROR_DIALOGS\<close>
  is defined.
\<close>

definition ShowError :: "build \<Rightarrow> message \<Rightarrow> string \<Rightarrow> event list" where
  "ShowError b msg title = (if ENABLE_ERROR_DIALOGS b then ShowError_dialog msg title else [])"

definition lstrcmpiW :: "host \<Rightarrow> wstring \<Rightarrow> wstring \<Rightarrow> int" where
  "lstrcmpiW h s1 s2 = compare_nocase h (cstr s1) (cstr s2)"

definition GetFileAttributesW_found :: "host \<Rightarrow> wstring \<Rightarrow> bool" where
  "GetFileAttributesW_found h path = file_exists h (cstr path)"

definition CreateProcessW :: "host \<Rightarrow> WCHAR list \<Rightarrow> spawn" where
  "CreateProcessW h cmd = create_process h (cstr cmd)"

text \<open>
  \<open>GetSystemDirectoryW(lpBuffer, uSize)\<close>: on failure the result is 0; when the
  directory and its terminator fit in \<open>uSize\<close> code units they are copied to the buffer
  and the result is the length of the directory; otherwise the buffer is left alone and
  the result is the size needed, terminator included.
\<close>

definition GetSystemDirectoryW :: "host \<Rightarrow> WCHAR list \<Rightarrow> nat \<Rightarrow> WCHAR list \<times> nat" where
  "GetSystemDirectoryW h lpBuffer uSize =
     (case system_directory h of
        None \<Rightarrow> (lpBuffer, 0)
      | Some d \<Rightarrow>
          (let s = cstr d in
           if length s < uSize
           then (s @ [0] @ drop (length s + 1) lpBuffer, length s)
           else (lpBuffer, length s + 1)))"

text \<open>
  \<open>lstrcatW(dst, src)\<close> copies \<open>src\<close> and a terminator to the end of the text in
  \<open>dst\<close>; it checks nothing, so it writes outside \<open>dst\<close> when they do not fit.
\<close>

definition lstrcatW :: "WCHAR list \<Rightarrow> wstring \<Rightarrow> WCHAR list option" where
  "lstrcatW dst src =
     (let n = lstrlenW dst; s = cstr src in
      if n + length s < length dst
      then Some (take n dst @ s @ [0] @ drop (n + length s + 1) dst)
      else None)"

section \<open>WinMain\<close>

text \<open>The relative path \<open>psRelative\<close> and the literals of the command line.\<close>

definition psRelative :: wstring where
  "psRelative = wstr ''WindowsPowerShell'' @ [BACKSLASH] @ wstr ''v1.0'' @ [BACKSLASH]
     @ wstr ''powershell.exe''"

definition script_flag :: wstring where
  "script_flag = wstr ''-Script''"

definition ps_switches :: wstring where
  "ps_switches = wstr '' -NonInteractive -NoProfile -ExecutionPolicy Bypass -File ''"

text \<open>
  Path construction (source lines 249 to 291). \<open>Inl\<close> is an early return of
  \<open>WinMain\<close>, \<open>Inr\<close> the array \<open>psPath\<close> after \<open>lstrcatW\<close>.
\<close>

definition build_psPath :: "build \<Rightarrow> host \<Rightarrow> outcome + WCHAR list" where
  "build_psPath b h =
     (case GetSystemDirectoryW h (replicate MAX_PATH 0) MAX_PATH of
        (psPath, len) \<Rightarrow>
          if len = 0 \<or> len > MAX_PATH - 1
          then Inl (Exit 1 (LocalFree # ShowError b (Literal ''Failed to get system directory.'') ''Error''))
          else
            (case (if psPath ! (len - 1) \<noteq> BACKSLASH
                   then (if len < MAX_PATH - 1
                         then (case store psPath len BACKSLASH of
                                 None \<Rightarrow> Inl Crash
                               | Some p1 \<Rightarrow>
                                   (case store p1 (len + 1) 0 of
                                      None \<Rightarrow> Inl Crash
                                    | Some p2 \<Rightarrow> Inr p2))
                         else Inl (Exit 1 (LocalFree #
                                 ShowError b (Literal ''System directory path too long.'') ''Error'')))
                   else Inr psPath) of
               Inl out \<Rightarrow> Inl out
             | Inr psPath' \<Rightarrow>
                 if lstrlenW psPath' + lstrlenW psRelative \<ge> MAX_PATH
                 then Inl (Exit 1 (LocalFree # ShowError b (Literal ''PowerShell path too long.'') ''Error''))
                 else
                   (case lstrcatW psPath' psRelative of
                      None \<Rightarrow> Inl Crash
                    | Some psPath'' \<Rightarrow> Inr psPath'')))"

text \<open>
  The failure every overflow of \<open>cmd\<close> reports through \<open>ShowError\<close>, and the
  continuation after an append.
\<close>

definition overflow_exit :: "build \<Rightarrow> outcome" where
  "overflow_exit b = Exit 1 (LocalFree # ShowError b (Literal ''Buffer overflow error.'') ''Error'')"

definition after_append ::
  "append \<Rightarrow> outcome \<Rightarrow> (WCHAR list \<Rightarrow> nat \<Rightarrow> outcome + 'a) \<Rightarrow> outcome + 'a" where
  "after_append r failure continue =
     (case r of
        Overrun \<Rightarrow> Inl Crash
      | Rejected \<Rightarrow> Inl failure
      | Appended cmd pos \<Rightarrow> continue cmd pos)"

text \<open>
  The inline block \<open>if (pos < CMD_BUFFER_SIZE - 1) { cmd[pos++] = L'\"'; cmd[pos] = L'\0'; }\<close>;
  its \<open>else\<close> branch is \<open>Rejected\<close>.
\<close>

definition put_quote :: "WCHAR list \<Rightarrow> nat \<Rightarrow> append" where
  "put_quote cmd pos =
     (if pos < CMD_BUFFER_SIZE - 1
      then (case store cmd pos DQUOTE of
              None \<Rightarrow> Overrun
            | Some cmd1 \<Rightarrow>
                (case store cmd1 (pos + 1) 0 of
                   None \<Rightarrow> Overrun
                 | Some cmd2 \<Rightarrow> Appended cmd2 (pos + 1)))
      else Rejected)"

text \<open>
  The start of the command line (source lines 316 to 394): the quoted interpreter path,
  the switches, the quoted script path.
\<close>

definition build_head :: "build \<Rightarrow> host \<Rightarrow> WCHAR list \<Rightarrow> wstring \<Rightarrow> outcome + WCHAR list \<times> nat" where
  "build_head b h psPath script =
     after_append (put_quote (map (cmd_uninit h) [0..<CMD_BUFFER_SIZE]) 0) (overflow_exit b)
       (\<lambda>cmd pos. after_append (AppendStr cmd CMD_BUFFER_SIZE psPath pos) (overflow_exit b)
       (\<lambda>cmd pos. after_append (put_quote cmd pos) (overflow_exit b)
       (\<lambda>cmd pos. after_append (AppendStr cmd CMD_BUFFER_SIZE ps_switches pos) (overflow_exit b)
       (\<lambda>cmd pos. after_append (put_quote cmd pos) (overflow_exit b)
       (\<lambda>cmd pos. after_append (AppendStr cmd CMD_BUFFER_SIZE script pos) (overflow_exit b)
       (\<lambda>cmd pos. after_append (put_quote cmd pos) (overflow_exit b)
       (\<lambda>cmd pos. Inr (cmd, pos))))))))"

text \<open>
  The security scan \<open>for (j = 0; j < lstrlenW(args[i]); j++) if (args[i][j] == L';')\<close>.
\<close>

definition has_semicolon :: "wstring \<Rightarrow> bool" where
  "has_semicolon arg = list_ex (\<lambda>c. c = SEMICOLON) (take (lstrlenW arg) arg)"

text \<open>The flag \<open>alreadyQuoted\<close>.\<close>

definition alreadyQuoted :: "wstring \<Rightarrow> bool" where
  "alreadyQuoted arg =
     (let argLen = lstrlenW arg in
      argLen \<ge> 2 \<and> char_at arg 0 = DQUOTE \<and> char_at arg (argLen - 1) = DQUOTE)"

text \<open>The loop that sets \<open>hasInternalQuotes\<close>.\<close>

fun hasInternalQuotes :: "wstring \<Rightarrow> bool" where
  "hasInternalQuotes [] = False"
| "hasInternalQuotes (c # cs) =
     (if c = 0 then False else if c = DQUOTE then True else hasInternalQuotes cs)"

text \<open>
  One iteration of the parameter loop (source lines 402 to 486). The semicolon and the
  separator failures return without calling \<open>ShowError\<close>.
\<close>

definition forward_param :: "build \<Rightarrow> wstring \<Rightarrow> WCHAR list \<Rightarrow> nat \<Rightarrow> outcome + WCHAR list \<times> nat" where
  "forward_param b arg cmd pos =
     (if has_semicolon arg then Inl (Exit 1 [LocalFree])
      else
        after_append (AppendStr cmd CMD_BUFFER_SIZE [SPACE] pos) (Exit 1 [LocalFree])
          (\<lambda>cmd pos.
             if alreadyQuoted arg
             then after_append (AppendStr cmd CMD_BUFFER_SIZE arg pos) (overflow_exit b)
                    (\<lambda>cmd pos. Inr (cmd, pos))
             else
               after_append (AppendStr cmd CMD_BUFFER_SIZE [DQUOTE] pos) (overflow_exit b)
                 (\<lambda>cmd pos.
                    after_append
                      (if hasInternalQuotes arg
                       then AppendEscaped cmd CMD_BUFFER_SIZE arg pos
                       else AppendStr cmd CMD_BUFFER_SIZE arg pos)
                      (overflow_exit b)
                      (\<lambda>cmd pos.
                         after_append (AppendStr cmd CMD_BUFFER_SIZE [DQUOTE] pos) (overflow_exit b)
                           (\<lambda>cmd pos. Inr (cmd, pos))))))"

text \<open>The loop \<open>for (int i = 3; i < argc; i++)\<close> over the tokens from index 3 on.\<close>

fun forward_params :: "build \<Rightarrow> wstring list \<Rightarrow> WCHAR list \<Rightarrow> nat \<Rightarrow> outcome + WCHAR list \<times> nat" where
  "forward_params b [] cmd pos = Inr (cmd, pos)"
| "forward_params b (arg # rest) cmd pos =
     (case forward_param b arg cmd pos of
        Inl out \<Rightarrow> Inl out
      | Inr (cmd', pos') \<Rightarrow> forward_params b rest cmd' pos')"

text \<open>Process creation and exit-code propagation (source lines 490 to 547).\<close>

definition launch :: "build \<Rightarrow> host \<Rightarrow> WCHAR list \<Rightarrow> outcome" where
  "launch b h cmd =
     (case CreateProcessW h cmd of
        SpawnFailed err \<Rightarrow>
          Exit err ([LocalFree, ProcessCreationFailed (cstr cmd) err] @
            ShowError b (if DEBUG b then DebugError err (cstr cmd) else SystemError err)
              ''Process Creation Failed'')
      | Spawned Never_exits \<Rightarrow>
          Blocked [LocalFree, ProcessCreated (cstr cmd), WaitForSingleObject]
      | Spawned (Exits exitCode) \<Rightarrow>
          Exit exitCode [LocalFree, ProcessCreated (cstr cmd), WaitForSingleObject,
            GetExitCodeProcess exitCode, CloseHandle hProcess, CloseHandle hThread])"

definition WinMain :: "build \<Rightarrow> host \<Rightarrow> outcome" where
  "WinMain b h =
     (case argv h of
        None \<Rightarrow> Exit 1 (ShowError b (Literal ''Failed to parse command line.'') ''Error'')
      | Some args \<Rightarrow>
          if length args < 3 \<or> lstrcmpiW h (args ! 1) script_flag \<noteq> 0
          then Exit 1 [UsageHelp, LocalFree]
          else
            (case build_psPath b h of
               Inl out \<Rightarrow> out
             | Inr psPath \<Rightarrow>
                 if \<not> GetFileAttributesW_found h psPath
                 then Exit 1 (LocalFree # ShowError b (Literal ''PowerShell executable not found.'') ''Error'')
                 else if \<not> GetFileAttributesW_found h (args ! 2)
                 then Exit 1 (LocalFree # ShowError b (Literal ''Specified script file not found.'') ''Error'')
                 else
                   (case build_head b h psPath (args ! 2) of
                      Inl out \<Rightarrow> out
                    | Inr (cmd, pos) \<Rightarrow>
                        (case forward_params b (drop 3 args) cmd pos of
                           Inl out \<Rightarrow> out
                         | Inr (cmd', pos') \<Rightarrow> launch b h cmd'))))"

text \<open>What a run shows, and whether it created a child process.\<close>

fun events :: "outcome \<Rightarrow> event list" where
  "events (Exit code evs) = evs"
| "events (Blocked evs) = evs"
| "events Crash = []"

fun is_dialog :: "event \<Rightarrow> bool" where
  "is_dialog UsageHelp = True"
| "is_dialog (ErrorDialog msg title) = True"
| "is_dialog ev = False"

fun is_ProcessCreated :: "event \<Rightarrow> bool" where
  "is_ProcessCreated (ProcessCreated cmdline) = True"
| "is_ProcessCreated ev = False"

definition dialogs :: "outcome \<Rightarrow> event list" where
  "dialogs out = filter is_dialog (events out)"

definition child_created :: "outcome \<Rightarrow> bool" where
  "child_created out = list_ex is_ProcessCreated (events out)"

fun exits_with :: "outcome \<Rightarrow> DWORD \<Rightarrow> bool" where
  "exits_with (Exit code evs) c = (code = c)"
| "exits_with out c = False"

text \<open>The command lines handed to \<open>CreateProcessW\<close> during a run.\<close>

fun CreateProcessW_calls :: "event list \<Rightarrow> wstring list" where
  "CreateProcessW_calls [] = []"
| "CreateProcessW_calls (ProcessCreated cmdline # evs) = cmdline # CreateProcessW_calls evs"
| "CreateProcessW_calls (ProcessCreationFailed cmdline err # evs) = cmdline # CreateProcessW_calls evs"
| "CreateProcessW_calls (ev # evs) = CreateProcessW_calls evs"

section \<open>The specification's wording\<close>

text \<open>
  The functions of this section follow the text of the specification, not the source;
  the theorems compare them with \<open>WinMain\<close>. They work on texts (strings without
  their terminator).

  A parameter is pre-quoted when it has at least two characters and begins and ends with
  a double quote.
\<close>

definition spec_pre_quoted :: "wstring \<Rightarrow> bool" where
  "spec_pre_quoted p \<longleftrightarrow> 2 \<le> length p \<and> hd p = DQUOTE \<and> last p = DQUOTE"

text \<open>Every double quote replaced by a backslash and a double quote.\<close>

definition spec_escape_quotes :: "wstring \<Rightarrow> wstring" where
  "spec_escape_quotes p = concat (map (\<lambda>c. if c = DQUOTE then [BACKSLASH, DQUOTE] else [c]) p)"

text \<open>
  A pre-quoted parameter is forwarded unmodified; any other is wrapped in double quotes,
  its embedded double quotes escaped when it has any.
\<close>

definition spec_forwarded :: "wstring \<Rightarrow> wstring" where
  "spec_forwarded p =
     (if spec_pre_quoted p then p
      else [DQUOTE] @ (if DQUOTE \<in> set p then spec_escape_quotes p else p) @ [DQUOTE])"

text \<open>
  The command line: the quoted interpreter path, the fixed switches, the quoted script
  path, then every parameter after a single space.
\<close>

definition spec_command_line :: "wstring \<Rightarrow> wstring \<Rightarrow> wstring list \<Rightarrow> wstring" where
  "spec_command_line interpreter script params =
     [DQUOTE] @ interpreter @ [DQUOTE] @ ps_switches @ [DQUOTE] @ script @ [DQUOTE] @
     concat (map (\<lambda>p. SPACE # spec_forwarded p) params)"

text \<open>
  The interpreter path: the system directory, a separator unless the directory already
  ends with one, and the fixed relative path.
\<close>

definition spec_interpreter_path :: "wstring \<Rightarrow> wstring" where
  "spec_interpreter_path sysdir =
     sysdir @ (if last sysdir = BACKSLASH then [] else [BACKSLASH]) @ psRelative"

section \<open>Vocabulary of the proofs\<close>

text \<open>
  \<open>holds_text cmd pos s\<close>: the array \<open>cmd\<close> has \<open>CMD_BUFFER_SIZE\<close> elements, its first
  \<open>pos\<close> elements are the text \<open>s\<close>, none of them NUL, and the element at \<open>pos\<close> is the
  terminator.
\<close>

definition holds_text :: "WCHAR list \<Rightarrow> nat \<Rightarrow> wstring \<Rightarrow> bool" where
  "holds_text cmd pos s \<longleftrightarrow>
     length cmd = CMD_BUFFER_SIZE \<and> pos < CMD_BUFFER_SIZE \<and>
     take pos cmd = s \<and> cmd ! pos = 0 \<and> 0 \<notin> set s"

text \<open>
  \<open>appended_as r t\<close>: the append with result \<open>r\<close> wrote inside the array only; it
  returned \<open>false\<close> only when the text \<open>t\<close> and its terminator do not fit, and otherwise
  left the whole of \<open>t\<close> in the array, terminated.
\<close>

definition appended_as :: "append \<Rightarrow> wstring \<Rightarrow> bool" where
  "appended_as r t \<longleftrightarrow>
     (case r of
        Overrun \<Rightarrow> False
      | Rejected \<Rightarrow> CMD_BUFFER_SIZE \<le> length t
      | Appended cmd pos \<Rightarrow> holds_text cmd pos t)"

text \<open>
  \<open>quiet_abort b out\<close>: the run returned 1 after doing nothing but free the argument
  array and, when the build has error dialogs, show one.
\<close>

definition quiet_abort :: "build \<Rightarrow> outcome \<Rightarrow> bool" where
  "quiet_abort b out \<longleftrightarrow>
     (\<exists>evs. out = Exit 1 evs \<and>
        (\<forall>e\<in>set evs. e = LocalFree \<or> (ENABLE_ERROR_DIALOGS b \<and> (\<exists>m t. e = ErrorDialog m t))))"

definition head_text :: "wstring \<Rightarrow> wstring \<Rightarrow> wstring" where
  "head_text interpreter script =
     [DQUOTE] @ interpreter @ [DQUOTE] @ ps_switches @ [DQUOTE] @ script @ [DQUOTE]"

definition params_text :: "wstring list \<Rightarrow> wstring" where
  "params_text args = concat (map (\<lambda>a. SPACE # spec_forwarded (cstr a)) args)"

text \<open>
  \<open>validated h args d\<close>: the run passes every check made before the command line is
  built (source lines 208 to 310): the arguments were parsed, there are at least three,
  the flag matches, the system directory \<open>d\<close> was obtained, the interpreter path fits in
  \<open>MAX_PATH\<close>, and both files exist.
\<close>

definition validated :: "host \<Rightarrow> wstring list \<Rightarrow> wstring \<Rightarrow> bool" where
  "validated h args d \<longleftrightarrow>
     argv h = Some args \<and> 3 \<le> length args \<and> lstrcmpiW h (args ! 1) script_flag = 0 \<and>
     system_directory h = Some d \<and> cstr d \<noteq> [] \<and>
     length (spec_interpreter_path (cstr d)) < MAX_PATH \<and>
     file_exists h (spec_interpreter_path (cstr d)) \<and> file_exists h (cstr (args ! 2))"

text \<open>The command line the specification prescribes for the tokens \<open>args\<close>.\<close>

definition assembled :: "wstring list \<Rightarrow> wstring \<Rightarrow> wstring" where
  "assembled args d =
     spec_command_line (spec_interpreter_path (cstr d)) (cstr (args ! 2)) (map cstr (drop 3 args))"

section \<open>Sample inputs\<close>

text \<open>
  A host on which every file exists, with an ASCII case-insensitive comparison, the
  system directory \<open>C:\Windows\System32\<close>, and a fixed answer of \<open>CreateProcessW\<close>.
\<close>

definition ascii_upper :: "WCHAR \<Rightarrow> WCHAR" where
  "ascii_upper c = (if 0x61 \<le> c \<and> c \<le> 0x7A then c - 0x20 else c)"

definition ascii_nocase :: "wstring \<Rightarrow> wstring \<Rightarrow> int" where
  "ascii_nocase s1 s2 = (if map ascii_upper s1 = map ascii_upper s2 then 0 else 1)"

definition sample_sysdir :: wstring where
  "sample_sysdir = wstr ''C:'' @ [BACKSLASH] @ wstr ''Windows'' @ [BACKSLASH] @ wstr ''System32''"

definition sample_host :: "wstring list \<Rightarrow> spawn \<Rightarrow> host" where
  "sample_host args answer =
     \<lparr> argv = Some args, compare_nocase = ascii_nocase, system_directory = Some sample_sysdir,
       file_exists = (\<lambda>path. True), cmd_uninit = (\<lambda>i. 0xCCCC),
       create_process = (\<lambda>cmdline. answer) \<rparr>"

definition default_build :: build where
  "default_build = \<lparr> ENABLE_ERROR_DIALOGS = False, DEBUG = False \<rparr>"

text \<open>The tokens \<open>ps-launcher.exe -SCRIPT test.ps1\<close> followed by \<open>params\<close>.\<close>

definition sample_args :: "wstring list \<Rightarrow> wstring list" where
  "sample_args params = [wstr ''ps-launcher.exe'', wstr ''-SCRIPT'', wstr ''test.ps1''] @ params"

section \<open>Strings, arrays and the append functions\<close>

lemma cstr_no_NUL: "0 \<notin> set (cstr s)"
  unfolding cstr_def by (induction s) auto

lemma cstr_id: "0 \<notin> set s \<Longrightarrow> cstr s = s"
  unfolding cstr_def by (induction s) auto

lemma cstr_cstr: "cstr (cstr s) = cstr s"
  by (simp add: cstr_id cstr_no_NUL)

lemma cstr_terminated: "0 \<notin> set s \<Longrightarrow> cstr (s @ 0 # t) = s"
  unfolding cstr_def by (induction s) auto

lemma take_lstrlenW: "take (lstrlenW s) s = cstr s"
  unfolding lstrlenW_def cstr_def by (rule takeWhile_eq_take [symmetric])

lemma lstrlenW_le: "lstrlenW s \<le> length s"
  unfolding lstrlenW_def cstr_def by (rule length_takeWhile_le)

lemma copy_chars_fits:
  "d + length xs \<le> length dest \<Longrightarrow>
   copy_chars dest d xs = Some (take d dest @ xs @ drop (d + length xs) dest)"
proof (induction xs arbitrary: dest d)
  case Nil
  then show ?case by simp
next
  case (Cons c cs)
  from Cons.prems have d: "d < length dest" by simp
  have upd: "dest[d := c] = take d dest @ c # drop (Suc d) dest"
    using d by (rule upd_conv_take_nth_drop)
  have "copy_chars (dest[d := c]) (Suc d) cs =
        Some (take (Suc d) (dest[d := c]) @ cs @ drop (Suc d + length cs) (dest[d := c]))"
    using Cons.prems by (intro Cons.IH) simp
  moreover have "take (Suc d) (dest[d := c]) = take d dest @ [c]"
    using d by (simp add: upd)
  moreover have "drop (Suc d + length cs) (dest[d := c]) = drop (Suc d + length cs) dest"
    by simp
  ultimately show ?case using d by (simp add: store_def)
qed

lemma AppendStr_closed:
  assumes "length dest = destSize"
  shows "AppendStr dest destSize src curLen =
     (if destSize \<le> curLen + lstrlenW src then Rejected
      else Appended (take curLen dest @ cstr src @ 0 # drop (Suc (curLen + lstrlenW src)) dest)
             (curLen + lstrlenW src))"
proof (cases "destSize \<le> curLen + lstrlenW src")
  case True
  then show ?thesis by (simp add: AppendStr_def)
next
  case False
  let ?n = "lstrlenW src"
  let ?mid = "take curLen dest @ cstr src @ drop (curLen + ?n) dest"
  from False assms have fit: "curLen + ?n < length dest" by simp
  have len: "length (cstr src) = ?n" by (simp add: lstrlenW_def)
  have copy: "copy_chars dest curLen (take ?n src) = Some ?mid"
    using fit copy_chars_fits [of curLen "cstr src" dest] by (simp add: take_lstrlenW len)
  have lmid: "length ?mid = length dest" using fit by (simp add: len)
  have "?mid[curLen + ?n := 0] = take curLen dest @ cstr src @ 0 # drop (Suc (curLen + ?n)) dest"
  proof -
    have "?mid = (take curLen dest @ cstr src) @ drop (curLen + ?n) dest" by simp
    moreover have "length (take curLen dest @ cstr src) = curLen + ?n" using fit by (simp add: len)
    moreover have "drop (curLen + ?n) dest = dest ! (curLen + ?n) # drop (Suc (curLen + ?n)) dest"
      using fit by (simp add: Cons_nth_drop_Suc)
    ultimately show ?thesis
      by (metis append.assoc list_update_length)
  qed
  then show ?thesis using False copy lmid fit by (simp add: AppendStr_def store_def Let_def)
qed

lemma holds_textD:
  assumes "holds_text cmd pos s"
  shows "length cmd = CMD_BUFFER_SIZE" "pos = length s" "take (length s) cmd = s" "0 \<notin> set s"
    "length s < CMD_BUFFER_SIZE"
proof -
  from assms have a: "length cmd = CMD_BUFFER_SIZE" "pos < CMD_BUFFER_SIZE" "take pos cmd = s"
    "0 \<notin> set s" by (auto simp: holds_text_def)
  show "length cmd = CMD_BUFFER_SIZE" "0 \<notin> set s" by fact+
  from a(1,2) have "length (take pos cmd) = pos" by simp
  then show p: "pos = length s" unfolding a(3) by simp
  from a(2,3) show "take (length s) cmd = s" "length s < CMD_BUFFER_SIZE" unfolding p by blast+
qed

lemma holds_text_cstr: "holds_text cmd pos s \<Longrightarrow> cstr cmd = s"
proof -
  assume h: "holds_text cmd pos s"
  then have lt: "pos < length cmd" and z: "cmd ! pos = 0" and t: "take pos cmd = s"
    and nz: "0 \<notin> set s" by (auto simp: holds_text_def)
  from lt have "cmd = take pos cmd @ cmd ! pos # drop (Suc pos) cmd"
    by (simp add: id_take_nth_drop [symmetric])
  then have "cmd = s @ 0 # drop (Suc pos) cmd" unfolding t z .
  then show ?thesis using nz by (metis cstr_terminated)
qed

lemma appended_text:
  assumes "length dest = CMD_BUFFER_SIZE" "take (length s) dest = s" "0 \<notin> set s"
    "0 \<notin> set t" "length s + length t < CMD_BUFFER_SIZE"
  shows "holds_text (take (length s) dest @ t @ 0 # drop (Suc (length s + length t)) dest)
           (length s + length t) (s @ t)"
proof -
  let ?cmd = "take (length s) dest @ t @ 0 # drop (Suc (length s + length t)) dest"
  have ls: "length (take (length s) dest) = length s" using assms by simp
  have "length ?cmd = CMD_BUFFER_SIZE" using assms by simp
  moreover have "?cmd = (s @ t) @ 0 # drop (Suc (length s + length t)) dest"
    using assms by simp
  then have "take (length s + length t) ?cmd = s @ t" "?cmd ! (length s + length t) = 0"
    by (simp_all add: nth_append)
  ultimately show ?thesis using assms by (simp add: holds_text_def)
qed

lemma AppendStr_step:
  assumes "length cmd = CMD_BUFFER_SIZE" "take (length s) cmd = s" "0 \<notin> set s"
  shows "appended_as (AppendStr cmd CMD_BUFFER_SIZE src (length s)) (s @ cstr src)"
proof (cases "CMD_BUFFER_SIZE \<le> length s + lstrlenW src")
  case True
  then show ?thesis using assms
    by (simp add: AppendStr_closed appended_as_def lstrlenW_def)
next
  case False
  then have "holds_text (take (length s) cmd @ cstr src @ 0 # drop (Suc (length s + length (cstr src))) cmd)
           (length s + length (cstr src)) (s @ cstr src)"
    using assms by (intro appended_text) (simp_all add: cstr_no_NUL lstrlenW_def)
  then show ?thesis using False assms
    by (simp add: AppendStr_closed appended_as_def lstrlenW_def)
qed

lemma AppendStr_holds:
  "holds_text cmd pos s \<Longrightarrow> appended_as (AppendStr cmd CMD_BUFFER_SIZE src pos) (s @ cstr src)"
  using AppendStr_step [of cmd s src] holds_textD [of cmd pos s] by simp

lemma put_quote_step:
  assumes "length cmd = CMD_BUFFER_SIZE" "take (length s) cmd = s" "0 \<notin> set s"
  shows "appended_as (put_quote cmd (length s)) (s @ [DQUOTE])"
proof (cases "length s < CMD_BUFFER_SIZE - 1")
  case False
  then show ?thesis by (simp add: put_quote_def appended_as_def)
next
  case True
  let ?n = "length s"
  have q: "DQUOTE \<noteq> 0" by (simp add: DQUOTE_def)
  have "holds_text (take ?n cmd @ [DQUOTE] @ 0 # drop (Suc (?n + length [DQUOTE])) cmd)
          (?n + length [DQUOTE]) (s @ [DQUOTE])"
    using assms True q by (intro appended_text) simp_all
  moreover have "cmd[?n := DQUOTE, Suc ?n := 0] = take ?n cmd @ [DQUOTE] @ 0 # drop (Suc (?n + length [DQUOTE])) cmd"
  proof -
    have "cmd[?n := DQUOTE] = take ?n cmd @ DQUOTE # drop (Suc ?n) cmd"
      using True assms by (intro upd_conv_take_nth_drop) simp
    moreover have "drop (Suc ?n) cmd = cmd ! Suc ?n # drop (Suc (Suc ?n)) cmd"
      using True assms by (intro Cons_nth_drop_Suc [symmetric]) simp
    moreover have "length (take ?n cmd @ [DQUOTE]) = Suc ?n" using True assms by simp
    ultimately have "cmd[?n := DQUOTE, Suc ?n := 0] = ((take ?n cmd @ [DQUOTE]) @ cmd ! Suc ?n # drop (Suc (Suc ?n)) cmd)[Suc ?n := 0]"
      by simp
    also have "\<dots> = (take ?n cmd @ [DQUOTE]) @ 0 # drop (Suc (Suc ?n)) cmd"
      using \<open>length (take ?n cmd @ [DQUOTE]) = Suc ?n\<close> by (metis list_update_length)
    finally show ?thesis by simp
  qed
  ultimately show ?thesis using True assms
    by (simp add: put_quote_def appended_as_def store_def)
qed

lemma put_quote_holds:
  "holds_text cmd pos s \<Longrightarrow> appended_as (put_quote cmd pos) (s @ [DQUOTE])"
  using put_quote_step [of cmd s] holds_textD [of cmd pos s] by simp

lemma cstr_Cons: "cstr (c # cs) = (if c = 0 then [] else c # cstr cs)"
  by (simp add: cstr_def)

lemma cstr_Nil: "cstr [] = []"
  by (simp add: cstr_def)

lemma spec_escape_quotes_Cons:
  "spec_escape_quotes (c # cs) = (if c = DQUOTE then [BACKSLASH, DQUOTE] else [c]) @ spec_escape_quotes cs"
  by (simp add: spec_escape_quotes_def)

lemma AppendEscaped_holds:
  "holds_text cmd pos s \<Longrightarrow>
   appended_as (AppendEscaped cmd CMD_BUFFER_SIZE src pos) (s @ spec_escape_quotes (cstr src))"
proof (induction src arbitrary: cmd pos s)
  case Nil
  then show ?case by (simp add: appended_as_def cstr_Nil spec_escape_quotes_def)
next
  case (Cons c cs)
  show ?case
  proof (cases "c = 0")
    case True
    with Cons.prems show ?thesis by (simp add: appended_as_def cstr_Cons spec_escape_quotes_def)
  next
    case False
    let ?piece = "if c = DQUOTE then [BACKSLASH, DQUOTE] else [c]"
    let ?r = "if c = DQUOTE then AppendStr cmd CMD_BUFFER_SIZE [BACKSLASH, DQUOTE] pos
              else AppendStr cmd CMD_BUFFER_SIZE [c, 0] pos"
    have piece: "?piece = (if c = DQUOTE then cstr [BACKSLASH, DQUOTE] else cstr [c, 0])"
      using False by (simp add: cstr_Cons cstr_Nil BACKSLASH_def DQUOTE_def)
    have step: "appended_as ?r (s @ ?piece)"
      using AppendStr_holds [OF Cons.prems] by (simp add: piece)
    have full: "spec_escape_quotes (cstr (c # cs)) = ?piece @ spec_escape_quotes (cstr cs)"
      using False by (simp add: cstr_Cons spec_escape_quotes_Cons)
    show ?thesis
    proof (cases ?r)
      case Overrun
      with step show ?thesis by (simp add: appended_as_def)
    next
      case Rejected
      with step have "CMD_BUFFER_SIZE \<le> length (s @ ?piece)" by (simp add: appended_as_def)
      then have "CMD_BUFFER_SIZE \<le> length (s @ spec_escape_quotes (cstr (c # cs)))"
        unfolding full by simp
      with Rejected False show ?thesis by (simp add: appended_as_def)
    next
      case (Appended cmd' pos')
      with step have "holds_text cmd' pos' (s @ ?piece)" by (simp add: appended_as_def)
      from Cons.IH [OF this] have "appended_as (AppendEscaped cmd' CMD_BUFFER_SIZE cs pos')
         (s @ spec_escape_quotes (cstr (c # cs)))" unfolding full by simp
      with Appended False show ?thesis by simp
    qed
  qed
qed

lemma after_append_rule:
  assumes "appended_as r t"
    and "CMD_BUFFER_SIZE \<le> length t \<Longrightarrow> Q (Inl failure)"
    and "\<And>cmd pos. holds_text cmd pos t \<Longrightarrow> Q (continue cmd pos)"
  shows "Q (after_append r failure continue)"
  using assms by (cases r) (simp_all add: appended_as_def after_append_def)

lemma has_semicolon_iff: "has_semicolon arg \<longleftrightarrow> SEMICOLON \<in> set (cstr arg)"
  by (simp add: has_semicolon_def take_lstrlenW list_ex_iff)

lemma hasInternalQuotes_iff: "hasInternalQuotes arg \<longleftrightarrow> DQUOTE \<in> set (cstr arg)"
proof (induction arg)
  case Nil
  show ?case by (simp add: cstr_Nil)
next
  case (Cons c cs)
  have "DQUOTE \<noteq> 0" by (simp add: DQUOTE_def)
  with Cons show ?case by (simp add: cstr_Cons)
qed

lemma alreadyQuoted_iff: "alreadyQuoted arg \<longleftrightarrow> spec_pre_quoted (cstr arg)"
proof -
  let ?s = "cstr arg"
  have le: "length ?s \<le> length arg" using lstrlenW_le [of arg] by (simp add: lstrlenW_def)
  have t: "take (length ?s) arg = ?s" using take_lstrlenW [of arg] by (simp add: lstrlenW_def)
  show ?thesis
  proof (cases "2 \<le> length ?s")
    case False
    then show ?thesis by (simp add: alreadyQuoted_def spec_pre_quoted_def lstrlenW_def)
  next
    case True
    then have ne: "?s \<noteq> []" by auto
    have nth: "i < length ?s \<Longrightarrow> arg ! i = ?s ! i" for i
      using nth_take [of i "length ?s" arg] unfolding t by simp
    have pos: "0 < length arg" "length ?s - 1 < length arg" using True le by arith+
    have a0: "char_at arg 0 = hd ?s"
      using True ne nth [of 0] pos by (simp add: char_at_def hd_conv_nth)
    have a1: "char_at arg (length ?s - 1) = last ?s"
      using True ne nth [of "length ?s - 1"] pos by (simp add: char_at_def last_conv_nth)
    show ?thesis using True a0 a1
      by (simp add: alreadyQuoted_def spec_pre_quoted_def lstrlenW_def)
  qed
qed


lemma quiet_abort_overflow: "quiet_abort b (overflow_exit b)"
  by (auto simp: quiet_abort_def overflow_exit_def ShowError_def ShowError_dialog_def)

lemma quiet_abort_free: "quiet_abort b (Exit 1 [LocalFree])"
  by (simp add: quiet_abort_def)

lemma cstr_ps_switches: "cstr ps_switches = ps_switches"
  by (rule cstr_id) (simp add: ps_switches_def wstr_def)

lemma build_head_char:
  fixes b h psPath script
  defines "full \<equiv> head_text (cstr psPath) (cstr script)"
  shows "if length full < CMD_BUFFER_SIZE
         then \<exists>cmd pos. build_head b h psPath script = Inr (cmd, pos) \<and> holds_text cmd pos full
         else build_head b h psPath script = Inl (overflow_exit b)"
    (is "?Q (build_head b h psPath script)")
proof -
  let ?cmd0 = "map (cmd_uninit h) [0..<CMD_BUFFER_SIZE]"
  have first: "appended_as (put_quote ?cmd0 0) [DQUOTE]"
    using put_quote_step [of ?cmd0 "[]"] by simp
  have fail: "CMD_BUFFER_SIZE \<le> length t \<Longrightarrow> length t \<le> length full \<Longrightarrow> ?Q (Inl (overflow_exit b))" for t :: wstring
    by simp
  show ?thesis
    unfolding build_head_def
  proof (rule after_append_rule [OF first], goal_cases)
    case 1 then show ?case by (intro fail [of "[DQUOTE]"]) (simp_all add: full_def head_text_def)
  next
    case (2 cmd pos)
    show ?case
    proof (rule after_append_rule [OF AppendStr_holds [OF 2]], goal_cases)
      case 1 then show ?case by (intro fail [OF 1]) (simp add: full_def head_text_def)
    next
      case (2 cmd pos)
      show ?case
      proof (rule after_append_rule [OF put_quote_holds [OF 2]], goal_cases)
        case 1 then show ?case by (intro fail [OF 1]) (simp add: full_def head_text_def)
      next
        case (2 cmd pos)
        show ?case
        proof (rule after_append_rule [OF AppendStr_holds [OF 2]], goal_cases)
          case 1 then show ?case by (intro fail [OF 1]) (simp add: full_def head_text_def cstr_ps_switches)
        next
          case (2 cmd pos)
          show ?case
          proof (rule after_append_rule [OF put_quote_holds [OF 2]], goal_cases)
            case 1 then show ?case by (intro fail [OF 1]) (simp add: full_def head_text_def cstr_ps_switches)
          next
            case (2 cmd pos)
            show ?case
            proof (rule after_append_rule [OF AppendStr_holds [OF 2]], goal_cases)
              case 1 then show ?case by (intro fail [OF 1]) (simp add: full_def head_text_def cstr_ps_switches)
            next
              case (2 cmd pos)
              show ?case
              proof (rule after_append_rule [OF put_quote_holds [OF 2]], goal_cases)
                case 1 then show ?case by (intro fail [OF 1]) (simp add: full_def head_text_def cstr_ps_switches)
              next
                case (2 cmd pos)
                then have "holds_text cmd pos full"
                  by (simp add: full_def head_text_def cstr_ps_switches)
                then show ?case using holds_textD(5) [of cmd pos full] by auto
              qed
            qed
          qed
        qed
      qed
    qed
  qed
qed

lemma forward_param_char:
  fixes b arg cmd pos s
  defines "t \<equiv> s @ SPACE # spec_forwarded (cstr arg)"
  assumes inv: "holds_text cmd pos s"
  shows "if SEMICOLON \<in> set (cstr arg)
         then forward_param b arg cmd pos = Inl (Exit 1 [LocalFree])
         else if length t < CMD_BUFFER_SIZE
         then \<exists>cmd' pos'. forward_param b arg cmd pos = Inr (cmd', pos') \<and> holds_text cmd' pos' t
         else forward_param b arg cmd pos = Inl (Exit 1 [LocalFree]) \<or>
              forward_param b arg cmd pos = Inl (overflow_exit b)"
proof (cases "SEMICOLON \<in> set (cstr arg)")
  case True
  then show ?thesis by (simp add: forward_param_def has_semicolon_iff)
next
  case semi: False
  let ?Q = "\<lambda>r. if length t < CMD_BUFFER_SIZE
         then \<exists>cmd' pos'. r = Inr (cmd', pos') \<and> holds_text cmd' pos' t
         else r = Inl (Exit 1 [LocalFree]) \<or> r = Inl (overflow_exit b)"
  have fail: "CMD_BUFFER_SIZE \<le> length u \<Longrightarrow> length u \<le> length t \<Longrightarrow> ?Q (Inl (overflow_exit b))"
    "CMD_BUFFER_SIZE \<le> length u \<Longrightarrow> length u \<le> length t \<Longrightarrow> ?Q (Inl (Exit 1 [LocalFree]))"
    for u :: wstring
    by simp_all
  have fin: "holds_text c p t \<Longrightarrow> ?Q (Inr (c, p))" for c p
    using holds_textD(5) [of c p t] by auto
  have sp: "cstr [SPACE] = [SPACE]" and dq: "cstr [DQUOTE] = [DQUOTE]"
    by (simp_all add: cstr_Cons cstr_Nil SPACE_def DQUOTE_def)
  have "?Q (forward_param b arg cmd pos)"
  proof (cases "spec_pre_quoted (cstr arg)")
    case True
    then have t: "t = s @ [SPACE] @ cstr arg" by (simp add: t_def spec_forwarded_def)
    show ?thesis
      unfolding forward_param_def
      apply (simp only: has_semicolon_iff semi if_False alreadyQuoted_iff True if_True)
    proof (rule after_append_rule [OF AppendStr_holds [OF inv]], goal_cases)
      case 1 then show ?case by (intro fail(2) [OF 1]) (simp add: t sp)
    next
      case (2 cmd pos)
      show ?case
      proof (rule after_append_rule [OF AppendStr_holds [OF 2]], goal_cases)
        case 1 then show ?case by (intro fail(1) [OF 1]) (simp add: t sp)
      next
        case (2 cmd pos)
        then show ?case by (intro fin) (simp add: t sp)
      qed
    qed
  next
    case False
    let ?body = "if DQUOTE \<in> set (cstr arg) then spec_escape_quotes (cstr arg) else cstr arg"
    have t: "t = s @ [SPACE] @ [DQUOTE] @ ?body @ [DQUOTE]"
      using False by (simp add: t_def spec_forwarded_def)
    show ?thesis
      unfolding forward_param_def
      apply (simp only: has_semicolon_iff semi if_False alreadyQuoted_iff False hasInternalQuotes_iff)
    proof (rule after_append_rule [OF AppendStr_holds [OF inv]], goal_cases)
      case 1 then show ?case by (intro fail(2) [OF 1]) (simp add: t sp)
    next
      case (2 cmd pos)
      show ?case
      proof (rule after_append_rule [OF AppendStr_holds [OF 2]], goal_cases)
        case 1 then show ?case by (intro fail(1) [OF 1]) (simp add: t sp dq)
      next
        case (2 cmd pos)
        have mid: "appended_as
            (if DQUOTE \<in> set (cstr arg) then AppendEscaped cmd CMD_BUFFER_SIZE arg pos
             else AppendStr cmd CMD_BUFFER_SIZE arg pos)
            (((s @ cstr [SPACE]) @ cstr [DQUOTE]) @ ?body)"
          using AppendEscaped_holds [OF 2, of arg] AppendStr_holds [OF 2, of arg] by simp
        show ?case
        proof (rule after_append_rule [OF mid], goal_cases)
          case 1 then show ?case by (intro fail(1) [OF 1]) (simp add: t sp dq)
        next
          case (2 cmd pos)
          show ?case
          proof (rule after_append_rule [OF AppendStr_holds [OF 2]], goal_cases)
            case 1 then show ?case by (intro fail(1) [OF 1]) (simp add: t sp dq)
          next
            case (2 cmd pos)
            then show ?case by (intro fin) (simp add: t sp dq)
          qed
        qed
      qed
    qed
  qed
  with semi show ?thesis by simp
qed

lemma quiet_abortI: "out = Exit 1 [LocalFree] \<or> out = overflow_exit b \<Longrightarrow> quiet_abort b out"
  using quiet_abort_free quiet_abort_overflow by auto

lemma forward_params_char:
  assumes "holds_text cmd pos s"
  shows "if (\<forall>a\<in>set args. SEMICOLON \<notin> set (cstr a)) \<and> length (s @ params_text args) < CMD_BUFFER_SIZE
         then \<exists>cmd' pos'. forward_params b args cmd pos = Inr (cmd', pos') \<and>
                holds_text cmd' pos' (s @ params_text args)
         else \<exists>out. forward_params b args cmd pos = Inl out \<and> quiet_abort b out"
  using assms
proof (induction args arbitrary: cmd pos s)
  case Nil
  then show ?case using holds_textD(5) [of cmd pos s] by (simp add: params_text_def)
next
  case (Cons a args)
  let ?t = "s @ SPACE # spec_forwarded (cstr a)"
  have full: "s @ params_text (a # args) = ?t @ params_text args"
    by (simp add: params_text_def)
  note step = forward_param_char [OF Cons.prems, of a b]
  show ?case
  proof (cases "SEMICOLON \<notin> set (cstr a) \<and> length ?t < CMD_BUFFER_SIZE")
    case True
    with step obtain cmd' pos' where r: "forward_param b a cmd pos = Inr (cmd', pos')"
      and inv: "holds_text cmd' pos' ?t" by auto
    have run: "forward_params b (a # args) cmd pos = forward_params b args cmd' pos'"
      using r by simp
    from True have "((\<forall>x\<in>set (a # args). SEMICOLON \<notin> set (cstr x)) \<and>
        length (s @ params_text (a # args)) < CMD_BUFFER_SIZE) =
       ((\<forall>x\<in>set args. SEMICOLON \<notin> set (cstr x)) \<and>
        length (?t @ params_text args) < CMD_BUFFER_SIZE)"
      unfolding full by simp
    with Cons.IH [OF inv] show ?thesis unfolding run full by simp
  next
    case False
    with step have "\<exists>out. forward_param b a cmd pos = Inl out \<and> quiet_abort b out"
      by (auto intro: quiet_abortI split: if_splits)
    moreover from False have "\<not> ((\<forall>a\<in>set (a # args). SEMICOLON \<notin> set (cstr a)) \<and>
        length (s @ params_text (a # args)) < CMD_BUFFER_SIZE)"
      unfolding full by auto
    ultimately show ?thesis by auto
  qed
qed

lemma psRelative_facts: "length psRelative = 37" "0 \<notin> set psRelative"
  by (simp_all add: psRelative_def wstr_def BACKSLASH_def)

lemma cstr_psRelative: "cstr psRelative = psRelative"
  by (rule cstr_id) (rule psRelative_facts)

lemma lstrlenW_terminated: "0 \<notin> set u \<Longrightarrow> lstrlenW (u @ 0 # rest) = length u"
  by (simp add: lstrlenW_def cstr_terminated)

lemma lstrcatW_terminated:
  assumes "0 \<notin> set u" "length u + length (cstr src) < length (u @ 0 # rest)"
  shows "\<exists>p. lstrcatW (u @ 0 # rest) src = Some p \<and> cstr p = u @ cstr src"
proof -
  let ?p = "u @ cstr src @ [0] @ drop (length u + length (cstr src) + 1) (u @ 0 # rest)"
  have "lstrcatW (u @ 0 # rest) src = Some ?p"
    using assms by (simp add: lstrcatW_def lstrlenW_terminated Let_def)
  moreover have "cstr ?p = u @ cstr src"
    using cstr_terminated [of "u @ cstr src"] assms(1) cstr_no_NUL [of src] by simp
  ultimately show ?thesis by blast
qed

lemma quiet_abort_literal: "quiet_abort b (Exit 1 (LocalFree # ShowError b m t))"
  by (auto simp: quiet_abort_def ShowError_def ShowError_dialog_def)

lemma build_psPath_None:
  "system_directory h = None \<Longrightarrow> \<exists>out. build_psPath b h = Inl out \<and> quiet_abort b out"
  by (simp add: build_psPath_def GetSystemDirectoryW_def quiet_abort_literal)

lemma build_psPath_Some:
  assumes sd: "system_directory h = Some d"
  shows "if cstr d \<noteq> [] \<and> length (spec_interpreter_path (cstr d)) < MAX_PATH
         then \<exists>psPath. build_psPath b h = Inr psPath \<and> cstr psPath = spec_interpreter_path (cstr d)
         else \<exists>out. build_psPath b h = Inl out \<and> quiet_abort b out"
proof -
  let ?s = "cstr d" and ?n = "length (cstr d)"
  have nz: "0 \<notin> set ?s" by (rule cstr_no_NUL)
  have bs: "BACKSLASH \<noteq> 0" by (simp add: BACKSLASH_def)
  consider (empty) "?n = 0" | (long) "MAX_PATH \<le> ?n" | (fits) "0 < ?n" "?n < MAX_PATH" by linarith
  then show ?thesis
  proof cases
    case empty
    then show ?thesis using sd
      by (simp add: build_psPath_def GetSystemDirectoryW_def MAX_PATH_def quiet_abort_literal)
  next
    case long
    then have "\<not> length (spec_interpreter_path ?s) < MAX_PATH"
      by (simp add: spec_interpreter_path_def)
    then show ?thesis using sd long
      by (simp add: build_psPath_def GetSystemDirectoryW_def Let_def MAX_PATH_def quiet_abort_literal)
  next
    case fits
    let ?pad = "replicate (MAX_PATH - Suc ?n) (0::WCHAR)"
    let ?psPath = "?s @ 0 # ?pad"
    have gsd: "GetSystemDirectoryW h (replicate MAX_PATH 0) MAX_PATH = (?psPath, ?n)"
      using sd fits by (simp add: GetSystemDirectoryW_def Let_def)
    have lenp: "length ?psPath = MAX_PATH" using fits by simp
    have ne: "?s \<noteq> []" using fits by auto
    have lastc: "?psPath ! (?n - 1) = last ?s"
      using fits ne by (simp add: nth_append last_conv_nth)
    have guard: "\<not> (?n = 0 \<or> ?n > MAX_PATH - 1)" using fits by simp
    show ?thesis
    proof (cases "last ?s = BACKSLASH")
      case True
      then have sp: "spec_interpreter_path ?s = ?s @ psRelative"
        by (simp add: spec_interpreter_path_def)
      show ?thesis
      proof (cases "length (spec_interpreter_path ?s) < MAX_PATH")
        case False
        then show ?thesis using gsd guard lastc True
          by (simp add: build_psPath_def sp lstrlenW_terminated nz cstr_psRelative
              lstrlenW_def [of psRelative] quiet_abort_literal)
      next
        case ok: True
        then have "length ?s + length (cstr psRelative) < length ?psPath"
          unfolding lenp by (simp add: sp cstr_psRelative)
        from lstrcatW_terminated [OF nz this] obtain p where
          "lstrcatW ?psPath psRelative = Some p" "cstr p = ?s @ psRelative"
          by (auto simp: cstr_psRelative)
        then show ?thesis using gsd guard lastc True ok ne
          by (simp add: build_psPath_def sp lstrlenW_terminated nz cstr_psRelative
              lstrlenW_def [of psRelative])
      qed
    next
      case False
      then have sp: "spec_interpreter_path ?s = (?s @ [BACKSLASH]) @ psRelative"
        by (simp add: spec_interpreter_path_def)
      show ?thesis
      proof (cases "?n < MAX_PATH - 1")
        case False
        then have "\<not> length (spec_interpreter_path ?s) < MAX_PATH"
          by (simp add: sp)
        then show ?thesis using gsd guard lastc \<open>last ?s \<noteq> BACKSLASH\<close> False
          by (simp add: build_psPath_def quiet_abort_literal)
      next
        case room: True
        let ?pad' = "replicate (MAX_PATH - Suc (Suc ?n)) (0::WCHAR)"
        let ?p2 = "(?s @ [BACKSLASH]) @ 0 # ?pad'"
        have pad: "?pad = 0 # ?pad'"
          using room by (cases "MAX_PATH - Suc ?n") (simp_all)
        have s1: "store ?psPath ?n BACKSLASH = Some (?s @ BACKSLASH # ?pad)"
          using fits by (simp add: store_def)
        have s2: "store (?s @ BACKSLASH # ?pad) (?n + 1) 0 = Some ?p2"
          using room unfolding pad by (simp add: store_def nth_append list_update_append)
        have nz2: "0 \<notin> set (?s @ [BACKSLASH])" using nz bs by simp
        have l2: "lstrlenW ?p2 = Suc ?n"
          using lstrlenW_terminated [OF nz2, of ?pad'] by simp
        have lenp2: "length ?p2 = MAX_PATH" using room by simp
        show ?thesis
        proof (cases "length (spec_interpreter_path ?s) < MAX_PATH")
          case False
          then show ?thesis using gsd guard lastc \<open>last ?s \<noteq> BACKSLASH\<close> room s1 s2 l2
            by (simp add: build_psPath_def sp lstrlenW_def [of psRelative] cstr_psRelative
                quiet_abort_literal del: append_assoc append.simps)
        next
          case ok: True
          then have "length (?s @ [BACKSLASH]) + length (cstr psRelative) < length ?p2"
            unfolding lenp2 by (simp add: sp cstr_psRelative)
          from lstrcatW_terminated [OF nz2 this] obtain p where
            "lstrcatW ?p2 psRelative = Some p" "cstr p = (?s @ [BACKSLASH]) @ psRelative"
            by (auto simp: cstr_psRelative)
          then show ?thesis using gsd guard lastc \<open>last ?s \<noteq> BACKSLASH\<close> room s1 s2 l2 ok ne
            by (simp add: build_psPath_def sp lstrlenW_def [of psRelative] cstr_psRelative
                del: append_assoc append.simps)
        qed
      qed
    qed
  qed
qed

lemma launch_text: "holds_text cmd pos s \<Longrightarrow> launch b h cmd = launch b h s"
  using holds_text_cstr [of cmd pos s] holds_textD(4) [of cmd pos s]
  by (simp add: launch_def CreateProcessW_def cstr_id split: spawn.split child.split)

lemma assembled_eq:
  "assembled args d =
     head_text (spec_interpreter_path (cstr d)) (cstr (args ! 2)) @ params_text (drop 3 args)"
  by (simp add: assembled_def spec_command_line_def head_text_def params_text_def comp_def)

lemma WinMain_None:
  "argv h = None \<Longrightarrow>
   WinMain b h = Exit 1 (ShowError b (Literal ''Failed to parse command line.'') ''Error'')"
  by (simp add: WinMain_def)

lemma WinMain_usage:
  "argv h = Some args \<Longrightarrow> length args < 3 \<or> lstrcmpiW h (args ! 1) script_flag \<noteq> 0 \<Longrightarrow>
   WinMain b h = Exit 1 [UsageHelp, LocalFree]"
  by (auto simp: WinMain_def)

lemma WinMain_accepted:
  assumes a: "argv h = Some args" "3 \<le> length args" "lstrcmpiW h (args ! 1) script_flag = 0"
  shows "if \<exists>d. validated h args d \<and> (\<forall>a\<in>set (drop 3 args). SEMICOLON \<notin> set (cstr a)) \<and>
              length (assembled args d) < CMD_BUFFER_SIZE
         then \<forall>d. system_directory h = Some d \<longrightarrow> WinMain b h = launch b h (assembled args d)
         else quiet_abort b (WinMain b h)"
proof (cases "system_directory h")
  case None
  from build_psPath_None [OF None, of b] obtain out where
    "build_psPath b h = Inl out" "quiet_abort b out" by blast
  then show ?thesis using a None by (simp add: WinMain_def validated_def)
next
  case (Some d)
  let ?ip = "spec_interpreter_path (cstr d)"
  let ?nosemi = "\<forall>a\<in>set (drop 3 args). SEMICOLON \<notin> set (cstr a)"
  have ex: "(\<exists>d'. validated h args d' \<and> ?nosemi \<and> length (assembled args d') < CMD_BUFFER_SIZE) =
      (validated h args d \<and> ?nosemi \<and> length (assembled args d) < CMD_BUFFER_SIZE)"
    using Some by (auto simp: validated_def)
  have all: "(\<forall>d'. system_directory h = Some d' \<longrightarrow> WinMain b h = launch b h (assembled args d')) =
      (WinMain b h = launch b h (assembled args d))"
    using Some by auto
  note path = build_psPath_Some [OF Some, of b]
  have start: "WinMain b h =
      (case build_psPath b h of
         Inl out \<Rightarrow> out
       | Inr psPath \<Rightarrow>
           if \<not> GetFileAttributesW_found h psPath
           then Exit 1 (LocalFree # ShowError b (Literal ''PowerShell executable not found.'') ''Error'')
           else if \<not> GetFileAttributesW_found h (args ! 2)
           then Exit 1 (LocalFree # ShowError b (Literal ''Specified script file not found.'') ''Error'')
           else
             (case build_head b h psPath (args ! 2) of
                Inl out \<Rightarrow> out
              | Inr (cmd, pos) \<Rightarrow>
                  (case forward_params b (drop 3 args) cmd pos of
                     Inl out \<Rightarrow> out
                   | Inr (cmd', pos') \<Rightarrow> launch b h cmd')))"
    using a by (simp add: WinMain_def)
  show ?thesis
  proof (cases "cstr d \<noteq> [] \<and> length ?ip < MAX_PATH")
    case False
    with path obtain out where "build_psPath b h = Inl out" "quiet_abort b out" by auto
    moreover from False have "\<not> validated h args d" by (auto simp: validated_def)
    ultimately show ?thesis unfolding ex start by simp
  next
    case True
    with path obtain psPath where p: "build_psPath b h = Inr psPath" "cstr psPath = ?ip" by auto
    show ?thesis
    proof (cases "file_exists h ?ip \<and> file_exists h (cstr (args ! 2))")
      case False
      then have "\<not> validated h args d" by (auto simp: validated_def)
      then show ?thesis unfolding ex start using p False
        by (auto simp: GetFileAttributesW_found_def quiet_abort_literal)
    next
      case files: True
      have v: "validated h args d" using a Some True files by (simp add: validated_def)
      let ?head = "head_text ?ip (cstr (args ! 2))"
      note hd = build_head_char [of psPath "args ! 2" b h, unfolded p(2)]
      show ?thesis
      proof (cases "length ?head < CMD_BUFFER_SIZE")
        case False
        then have "\<not> length (assembled args d) < CMD_BUFFER_SIZE" by (simp add: assembled_eq)
        moreover from False hd have "build_head b h psPath (args ! 2) = Inl (overflow_exit b)"
          by simp
        ultimately show ?thesis unfolding ex start using p files
          by (simp add: GetFileAttributesW_found_def quiet_abort_overflow)
      next
        case True
        with hd obtain cmd pos where h1: "build_head b h psPath (args ! 2) = Inr (cmd, pos)"
          and inv: "holds_text cmd pos ?head" by auto
        note ps = forward_params_char [OF inv, of "drop 3 args" b, folded assembled_eq]
        show ?thesis
        proof (cases "?nosemi \<and> length (assembled args d) < CMD_BUFFER_SIZE")
          case False
          with ps obtain out where "forward_params b (drop 3 args) cmd pos = Inl out"
            "quiet_abort b out" by auto
          then show ?thesis unfolding ex start using p files h1 False
            by (auto simp: GetFileAttributesW_found_def)
        next
          case ok: True
          with ps obtain cmd' pos' where "forward_params b (drop 3 args) cmd pos = Inr (cmd', pos')"
            "holds_text cmd' pos' (assembled args d)" by auto
          then have "WinMain b h = launch b h (assembled args d)"
            unfolding start using p files h1
            by (simp add: GetFileAttributesW_found_def launch_text)
          then show ?thesis unfolding ex using ok v Some by simp
        qed
      qed
    qed
  qed
qed

section \<open>Outcomes of a run\<close>

lemma quiet_abort_exits: "quiet_abort b out \<Longrightarrow> exits_with out 1"
  by (auto simp: quiet_abort_def)

lemma quiet_abort_events:
  assumes "quiet_abort b out"
  shows "\<not> child_created out" "CreateProcessW_calls (events out) = []"
    "\<not> ENABLE_ERROR_DIALOGS b \<Longrightarrow> dialogs out = []" "out \<noteq> Crash"
proof -
  from assms obtain evs where out: "out = Exit 1 evs"
    and evs: "\<forall>e\<in>set evs. e = LocalFree \<or> (ENABLE_ERROR_DIALOGS b \<and> (\<exists>m t. e = ErrorDialog m t))"
    by (auto simp: quiet_abort_def)
  from evs have "\<not> list_ex is_ProcessCreated evs" by (induction evs) auto
  then show "\<not> child_created out" by (simp add: child_created_def out)
  from evs show "CreateProcessW_calls (events out) = []" unfolding out
    by (induction evs) auto
  show "out \<noteq> Crash" by (simp add: out)
  assume "\<not> ENABLE_ERROR_DIALOGS b"
  with evs have "filter is_dialog evs = []" by (induction evs) auto
  then show "dialogs out = []" by (simp add: dialogs_def out)
qed

lemma spec_forwarded_no_NUL: "0 \<notin> set p \<Longrightarrow> 0 \<notin> set (spec_forwarded p)"
  by (auto simp: spec_forwarded_def spec_escape_quotes_def DQUOTE_def BACKSLASH_def)

lemma assembled_no_NUL: "0 \<notin> set (assembled args d)"
proof -
  have "0 \<notin> set (spec_interpreter_path (cstr d))"
    using cstr_no_NUL [of d] psRelative_facts(2)
    by (simp add: spec_interpreter_path_def BACKSLASH_def)
  moreover have "0 \<notin> set ps_switches" by (simp add: ps_switches_def wstr_def)
  moreover have "0 \<notin> set (spec_forwarded (cstr a))" for a
    by (rule spec_forwarded_no_NUL) (rule cstr_no_NUL)
  ultimately show ?thesis
    using cstr_no_NUL [of "args ! 2"]
    by (auto simp: assembled_def spec_command_line_def DQUOTE_def SPACE_def)
qed

lemma cstr_assembled: "cstr (assembled args d) = assembled args d"
  by (rule cstr_id) (rule assembled_no_NUL)

lemma launch_not_Crash: "launch b h cmd \<noteq> Crash"
  by (simp add: launch_def split: spawn.split child.split)

lemma launch_assembled:
  "launch b h (assembled args d) =
     (case create_process h (assembled args d) of
        SpawnFailed err \<Rightarrow>
          Exit err ([LocalFree, ProcessCreationFailed (assembled args d) err] @
            ShowError b (if DEBUG b then DebugError err (assembled args d) else SystemError err)
              ''Process Creation Failed'')
      | Spawned Never_exits \<Rightarrow>
          Blocked [LocalFree, ProcessCreated (assembled args d), WaitForSingleObject]
      | Spawned (Exits exitCode) \<Rightarrow>
          Exit exitCode [LocalFree, ProcessCreated (assembled args d), WaitForSingleObject,
            GetExitCodeProcess exitCode, CloseHandle hProcess, CloseHandle hThread])"
  by (simp add: launch_def CreateProcessW_def cstr_assembled split: spawn.split child.split)

lemma WinMain_valid:
  assumes "validated h args d" "\<forall>a\<in>set (drop 3 args). SEMICOLON \<notin> set (cstr a)"
    "length (assembled args d) < CMD_BUFFER_SIZE"
  shows "WinMain b h = launch b h (assembled args d)"
proof -
  from assms(1) have a: "argv h = Some args" "3 \<le> length args"
    "lstrcmpiW h (args ! 1) script_flag = 0" "system_directory h = Some d"
    by (simp_all add: validated_def)
  from assms have "\<exists>d. validated h args d \<and> (\<forall>a\<in>set (drop 3 args). SEMICOLON \<notin> set (cstr a)) \<and>
      length (assembled args d) < CMD_BUFFER_SIZE" by blast
  with WinMain_accepted [OF a(1-3), of b] a(4) show ?thesis by simp
qed

lemma WinMain_invalid:
  assumes "argv h = Some args"
    and "\<not> (\<exists>d. validated h args d \<and> (\<forall>a\<in>set (drop 3 args). SEMICOLON \<notin> set (cstr a)) \<and>
      length (assembled args d) < CMD_BUFFER_SIZE)"
  shows "WinMain b h = Exit 1 [UsageHelp, LocalFree] \<or> quiet_abort b (WinMain b h)"
proof (cases "length args < 3 \<or> lstrcmpiW h (args ! 1) script_flag \<noteq> 0")
  case True
  with WinMain_usage [OF assms(1)] show ?thesis by blast
next
  case False
  then have "3 \<le> length args" "lstrcmpiW h (args ! 1) script_flag = 0" by auto
  from WinMain_accepted [OF assms(1) this, of b] assms(2) show ?thesis by simp
qed

lemma WinMain_rejected:
  assumes "argv h = Some args"
    and "\<not> (\<exists>d. validated h args d \<and> (\<forall>a\<in>set (drop 3 args). SEMICOLON \<notin> set (cstr a)) \<and>
      length (assembled args d) < CMD_BUFFER_SIZE)"
  shows "exits_with (WinMain b h) 1 \<and> \<not> child_created (WinMain b h)"
  using WinMain_invalid [OF assms, of b] quiet_abort_exits [of b "WinMain b h"]
    quiet_abort_events(1) [of b "WinMain b h"]
  by (auto simp: child_created_def)

lemma WinMain_cases:
  obtains (parse) "argv h = None"
      "WinMain b h = Exit 1 (ShowError b (Literal ''Failed to parse command line.'') ''Error'')"
  | (usage) args where "argv h = Some args"
      "length args < 3 \<or> lstrcmpiW h (args ! 1) script_flag \<noteq> 0"
      "WinMain b h = Exit 1 [UsageHelp, LocalFree]"
  | (abort) args where "argv h = Some args"
      "\<not> (length args < 3 \<or> lstrcmpiW h (args ! 1) script_flag \<noteq> 0)"
      "quiet_abort b (WinMain b h)"
  | (launched) args d where "validated h args d"
      "\<forall>a\<in>set (drop 3 args). SEMICOLON \<notin> set (cstr a)"
      "length (assembled args d) < CMD_BUFFER_SIZE"
      "WinMain b h = launch b h (assembled args d)"
proof (cases "argv h")
  case None
  then show ?thesis using parse WinMain_None by blast
next
  case (Some args)
  show ?thesis
  proof (cases "length args < 3 \<or> lstrcmpiW h (args ! 1) script_flag \<noteq> 0")
    case True
    then show ?thesis using usage Some WinMain_usage [OF Some] by blast
  next
    case False
    then have ok: "3 \<le> length args" "lstrcmpiW h (args ! 1) script_flag = 0" by auto
    show ?thesis
    proof (cases "\<exists>d. validated h args d \<and> (\<forall>a\<in>set (drop 3 args). SEMICOLON \<notin> set (cstr a)) \<and>
              length (assembled args d) < CMD_BUFFER_SIZE")
      case True
      then obtain d where "validated h args d" "\<forall>a\<in>set (drop 3 args). SEMICOLON \<notin> set (cstr a)"
        "length (assembled args d) < CMD_BUFFER_SIZE" by blast
      then show ?thesis using launched WinMain_valid by blast
    next
      case nv: False
      with WinMain_accepted [OF Some ok, of b] have "quiet_abort b (WinMain b h)" by simp
      then show ?thesis using abort Some False by blast
    qed
  qed
qed


lemma launch_calls: "CreateProcessW_calls (events (launch b h (assembled args d))) = [assembled args d]"
  by (simp add: launch_assembled ShowError_def ShowError_dialog_def split: spawn.split child.split)

section \<open>The claims\<close>

text \<open>
  C1. When a forwarded parameter (a token at index 3 or later) contains a semicolon, the
  run returns 1 and creates no child process, whatever the other tokens are; the scan
  reads the raw text of the parameter and ends the iteration before anything is appended
  for it.
\<close>

theorem semicolon_aborts_run:
  assumes "argv h = Some args" "3 \<le> i" "i < length args" "SEMICOLON \<in> set (cstr (args ! i))"
  shows "exits_with (WinMain b h) 1 \<and> \<not> child_created (WinMain b h) \<and>
         forward_param b (args ! i) cmd pos = Inl (Exit 1 [LocalFree])"
proof -
  have "args ! i = drop 3 args ! (i - 3)" using assms(2,3) by simp
  moreover have "i - 3 < length (drop 3 args)" using assms(2,3) by simp
  ultimately have "args ! i \<in> set (drop 3 args)" by (metis nth_mem)
  with assms(4) have "\<not> (\<exists>d. validated h args d \<and>
      (\<forall>a\<in>set (drop 3 args). SEMICOLON \<notin> set (cstr a)) \<and>
      length (assembled args d) < CMD_BUFFER_SIZE)" by blast
  from WinMain_rejected [OF assms(1) this, of b] assms(4) show ?thesis
    by (simp add: forward_param_def has_semicolon_iff)
qed

theorem semicolon_aborts_run_witness:
  "exits_with (WinMain default_build (sample_host (sample_args [wstr ''-Name'', wstr ''a;b'']) (Spawned (Exits 0)))) 1 \<and>
   \<not> child_created (WinMain default_build (sample_host (sample_args [wstr ''-Name'', wstr ''a;b'']) (Spawned (Exits 0)))) \<and>
   forward_param default_build (sample_args [wstr ''-Name'', wstr ''a;b''] ! 4) [] 0 = Inl (Exit 1 [LocalFree])"
proof -
  let ?args = "sample_args [wstr ''-Name'', wstr ''a;b'']"
  let ?h = "sample_host ?args (Spawned (Exits 0))"
  have "argv ?h = Some ?args" by (simp add: sample_host_def)
  moreover have "(3::nat) \<le> 4" by simp
  moreover have "4 < length ?args" by (simp add: sample_args_def)
  moreover have "SEMICOLON \<in> set (cstr (?args ! 4))"
    by (simp add: sample_args_def wstr_def cstr_def SEMICOLON_def)
  ultimately show ?thesis by (rule semicolon_aborts_run)
qed

text \<open>
  C7. When fewer than three tokens were parsed, or \<open>lstrcmpiW\<close> does not report token 1
  equal to \<open>-Script\<close>, the run shows the usage help, returns 1 and creates no child
  process.
\<close>

theorem usage_error_shows_help:
  assumes "argv h = Some args"
    and "length args < 3 \<or> lstrcmpiW h (args ! 1) script_flag \<noteq> 0"
  shows "dialogs (WinMain b h) = [UsageHelp] \<and> exits_with (WinMain b h) 1 \<and>
         \<not> child_created (WinMain b h)"
  using WinMain_usage [OF assms, of b] by (simp add: dialogs_def child_created_def)

theorem usage_error_shows_help_witness:
  "dialogs (WinMain default_build (sample_host [wstr ''ps-launcher.exe'', wstr ''-File'', wstr ''test.ps1''] (Spawned (Exits 0)))) = [UsageHelp] \<and>
   exits_with (WinMain default_build (sample_host [wstr ''ps-launcher.exe'', wstr ''-File'', wstr ''test.ps1''] (Spawned (Exits 0)))) 1 \<and>
   \<not> child_created (WinMain default_build (sample_host [wstr ''ps-launcher.exe'', wstr ''-File'', wstr ''test.ps1''] (Spawned (Exits 0))))"
proof -
  let ?args = "[wstr ''ps-launcher.exe'', wstr ''-File'', wstr ''test.ps1'']"
  let ?h = "sample_host ?args (Spawned (Exits 0))"
  have "argv ?h = Some ?args" by (simp add: sample_host_def)
  moreover have "length ?args < 3 \<or> lstrcmpiW ?h (?args ! 1) script_flag \<noteq> 0"
    by (simp add: sample_host_def lstrcmpiW_def script_flag_def ascii_nocase_def wstr_def cstr_def)
  ultimately show ?thesis by (rule usage_error_shows_help)
qed

lemma sample_validated:
  "validated (sample_host (sample_args params) answer) (sample_args params) sample_sysdir"
proof -
  have "length (cstr sample_sysdir) = 19"
    by (simp add: sample_sysdir_def wstr_def cstr_def BACKSLASH_def)
  then have "length (spec_interpreter_path (cstr sample_sysdir)) < MAX_PATH" "cstr sample_sysdir \<noteq> []"
    by (auto simp: spec_interpreter_path_def psRelative_facts MAX_PATH_def)
  moreover have "lstrcmpiW (sample_host (sample_args params) answer) (sample_args params ! 1) script_flag = 0"
    by (simp add: sample_host_def sample_args_def lstrcmpiW_def script_flag_def ascii_nocase_def
        ascii_upper_def wstr_def cstr_def)
  ultimately show ?thesis
    by (simp add: validated_def sample_host_def sample_args_def)
qed

text \<open>
  C3. When the run passes validation, no forwarded parameter contains a semicolon and
  the command line fits in the buffer, the text handed to \<open>CreateProcessW\<close> is the one
  the specification prescribes: the quoted interpreter path, the switches, the quoted
  script path, then each forwarded parameter after a single space, in order.
\<close>

theorem command_line_as_specified:
  assumes "validated h args d"
    and "\<forall>a\<in>set (drop 3 args). SEMICOLON \<notin> set (cstr a)"
    and "length (spec_command_line (spec_interpreter_path (cstr d)) (cstr (args ! 2))
           (map cstr (drop 3 args))) < CMD_BUFFER_SIZE"
  shows "CreateProcessW_calls (events (WinMain b h)) =
           [spec_command_line (spec_interpreter_path (cstr d)) (cstr (args ! 2))
              (map cstr (drop 3 args))] \<and>
         WinMain b h =
           launch b h (spec_command_line (spec_interpreter_path (cstr d)) (cstr (args ! 2))
              (map cstr (drop 3 args)))"
  using WinMain_valid [OF assms(1,2), of b] launch_calls [of b h args d] assms(3)
  by (simp add: assembled_def)

theorem command_line_as_specified_witness:
  "CreateProcessW_calls (events (WinMain default_build
      (sample_host (sample_args [wstr ''-Name'', [DQUOTE] @ wstr ''John Doe'' @ [DQUOTE],
          wstr ''say '' @ [DQUOTE] @ wstr ''hi'' @ [DQUOTE] @ wstr '' now''])
        (Spawned (Exits 0))))) =
     [[DQUOTE] @ sample_sysdir @ [BACKSLASH] @ psRelative @ [DQUOTE] @ ps_switches @
      [DQUOTE] @ wstr ''test.ps1'' @ [DQUOTE] @
      [SPACE, DQUOTE] @ wstr ''-Name'' @ [DQUOTE] @
      [SPACE, DQUOTE] @ wstr ''John Doe'' @ [DQUOTE] @
      [SPACE, DQUOTE] @ wstr ''say '' @ [BACKSLASH, DQUOTE] @ wstr ''hi'' @ [BACKSLASH, DQUOTE] @
        wstr '' now'' @ [DQUOTE]]"
proof -
  let ?params = "[wstr ''-Name'', [DQUOTE] @ wstr ''John Doe'' @ [DQUOTE],
          wstr ''say '' @ [DQUOTE] @ wstr ''hi'' @ [DQUOTE] @ wstr '' now'']"
  let ?args = "sample_args ?params"
  let ?h = "sample_host ?args (Spawned (Exits 0))"
  let ?text = "spec_command_line (spec_interpreter_path (cstr sample_sysdir)) (cstr (?args ! 2))
           (map cstr (drop 3 ?args))"
  have expected: "?text = [DQUOTE] @ sample_sysdir @ [BACKSLASH] @ psRelative @ [DQUOTE] @ ps_switches @
      [DQUOTE] @ wstr ''test.ps1'' @ [DQUOTE] @
      [SPACE, DQUOTE] @ wstr ''-Name'' @ [DQUOTE] @
      [SPACE, DQUOTE] @ wstr ''John Doe'' @ [DQUOTE] @
      [SPACE, DQUOTE] @ wstr ''say '' @ [BACKSLASH, DQUOTE] @ wstr ''hi'' @ [BACKSLASH, DQUOTE] @
        wstr '' now'' @ [DQUOTE]"
    by (simp add: spec_command_line_def spec_interpreter_path_def spec_forwarded_def
        spec_pre_quoted_def spec_escape_quotes_def sample_args_def sample_sysdir_def
        wstr_def cstr_def DQUOTE_def BACKSLASH_def SPACE_def)
  have v: "validated ?h ?args sample_sysdir" by (rule sample_validated)
  have s: "\<forall>a\<in>set (drop 3 ?args). SEMICOLON \<notin> set (cstr a)"
    by (simp add: sample_args_def wstr_def cstr_def SEMICOLON_def DQUOTE_def)
  have l: "length ?text < CMD_BUFFER_SIZE"
    unfolding expected
    by (simp add: sample_sysdir_def psRelative_facts ps_switches_def wstr_def CMD_BUFFER_SIZE_def)
  from command_line_as_specified [OF v s l, of default_build] show ?thesis
    unfolding expected by blast
qed

lemma sample_launch:
  "WinMain b (sample_host (sample_args []) answer) =
     launch b (sample_host (sample_args []) answer) (assembled (sample_args []) sample_sysdir)"
proof (rule WinMain_valid [OF sample_validated])
  show "\<forall>a\<in>set (drop 3 (sample_args [])). SEMICOLON \<notin> set (cstr a)"
    by (simp add: sample_args_def)
  have "length (cstr sample_sysdir) = 19"
    by (simp add: sample_sysdir_def wstr_def cstr_def BACKSLASH_def)
  then show "length (assembled (sample_args []) sample_sysdir) < CMD_BUFFER_SIZE"
    by (simp add: assembled_def spec_command_line_def spec_interpreter_path_def psRelative_facts
        ps_switches_def sample_args_def wstr_def cstr_def CMD_BUFFER_SIZE_def)
qed

text \<open>
  C6. In a run that reaches \<open>CreateProcessW\<close> (validated, no semicolon, the command line
  fits): when the host fails to create the process with last-error code \<open>err\<close>, the run
  returns \<open>err\<close> and no child exists; when the host creates a child that terminates with
  exit code \<open>code\<close>, the run returns \<open>code\<close>, and it closes the process handle and the
  thread handle after \<open>GetExitCodeProcess\<close> has read the code.
\<close>

theorem exit_code_propagation:
  assumes "validated h args d"
    and "\<forall>a\<in>set (drop 3 args). SEMICOLON \<notin> set (cstr a)"
    and "length (assembled args d) < CMD_BUFFER_SIZE"
  shows "(create_process h (assembled args d) = SpawnFailed err \<longrightarrow>
            WinMain b h =
              Exit err ([LocalFree, ProcessCreationFailed (assembled args d) err] @
                ShowError b (if DEBUG b then DebugError err (assembled args d) else SystemError err)
                  ''Process Creation Failed'') \<and>
            exits_with (WinMain b h) err \<and> \<not> child_created (WinMain b h)) \<and>
         (create_process h (assembled args d) = Spawned (Exits code) \<longrightarrow>
            WinMain b h =
              Exit code [LocalFree, ProcessCreated (assembled args d), WaitForSingleObject,
                GetExitCodeProcess code, CloseHandle hProcess, CloseHandle hThread] \<and>
            exits_with (WinMain b h) code \<and> child_created (WinMain b h))"
  unfolding WinMain_valid [OF assms] launch_assembled
  by (simp add: ShowError_def ShowError_dialog_def child_created_def)

theorem exit_code_propagation_witness:
  "exits_with (WinMain default_build (sample_host (sample_args []) (SpawnFailed 5))) 5 \<and>
   \<not> child_created (WinMain default_build (sample_host (sample_args []) (SpawnFailed 5))) \<and>
   WinMain default_build (sample_host (sample_args []) (Spawned (Exits 0))) =
     Exit 0 [LocalFree, ProcessCreated (assembled (sample_args []) sample_sysdir),
       WaitForSingleObject, GetExitCodeProcess 0, CloseHandle hProcess, CloseHandle hThread] \<and>
   exits_with (WinMain default_build (sample_host (sample_args []) (Spawned (Exits 3)))) 3"
proof -
  let ?c = "assembled (sample_args []) sample_sysdir"
  have s: "\<forall>a\<in>set (drop 3 (sample_args [])). SEMICOLON \<notin> set (cstr a)"
    by (simp add: sample_args_def)
  have "length (cstr sample_sysdir) = 19"
    by (simp add: sample_sysdir_def wstr_def cstr_def BACKSLASH_def)
  then have l: "length ?c < CMD_BUFFER_SIZE"
    by (simp add: assembled_def spec_command_line_def spec_interpreter_path_def psRelative_facts
        ps_switches_def sample_args_def wstr_def cstr_def CMD_BUFFER_SIZE_def)
  have f: "create_process (sample_host (sample_args []) (SpawnFailed 5)) ?c = SpawnFailed 5"
    and z: "create_process (sample_host (sample_args []) (Spawned (Exits 0))) ?c = Spawned (Exits 0)"
    and t: "create_process (sample_host (sample_args []) (Spawned (Exits 3))) ?c = Spawned (Exits 3)"
    by (simp_all add: sample_host_def)
  from exit_code_propagation [OF sample_validated s l, of "SpawnFailed 5" 5 default_build] f
    exit_code_propagation [OF sample_validated s l, of "Spawned (Exits 0)" _ default_build 0] z
    exit_code_propagation [OF sample_validated s l, of "Spawned (Exits 3)" _ default_build 3] t
  show ?thesis by blast
qed

text \<open>
  C8. The interpreter path is the system directory, a backslash unless the directory
  already ends with one, and \<open>WindowsPowerShell\v1.0\powershell.exe\<close>. The run returns 1
  and creates no child process when the directory query fails, when the path does not
  fit in \<open>MAX_PATH\<close>, or when the interpreter or the script does not exist.
\<close>

theorem interpreter_path_resolution:
  "(system_directory h = Some d \<and> cstr d \<noteq> [] \<and>
    length (spec_interpreter_path (cstr d)) < MAX_PATH \<longrightarrow>
      (\<exists>psPath. build_psPath b h = Inr psPath \<and>
         cstr psPath = spec_interpreter_path (cstr d))) \<and>
   (argv h = Some args \<and>
    (system_directory h = None \<or>
     (\<exists>d. system_directory h = Some d \<and>
        (cstr d = [] \<or> MAX_PATH \<le> length (spec_interpreter_path (cstr d)) \<or>
         \<not> file_exists h (spec_interpreter_path (cstr d)))) \<or>
     \<not> file_exists h (cstr (args ! 2))) \<longrightarrow>
      exits_with (WinMain b h) 1 \<and> \<not> child_created (WinMain b h))"
proof (intro conjI impI)
  assume "system_directory h = Some d \<and> cstr d \<noteq> [] \<and>
    length (spec_interpreter_path (cstr d)) < MAX_PATH"
  then show "\<exists>psPath. build_psPath b h = Inr psPath \<and>
         cstr psPath = spec_interpreter_path (cstr d)"
    using build_psPath_Some [of h d b] by simp
next
  assume a: "argv h = Some args \<and>
    (system_directory h = None \<or>
     (\<exists>d. system_directory h = Some d \<and>
        (cstr d = [] \<or> MAX_PATH \<le> length (spec_interpreter_path (cstr d)) \<or>
         \<not> file_exists h (spec_interpreter_path (cstr d)))) \<or>
     \<not> file_exists h (cstr (args ! 2)))"
  then have "\<not> (\<exists>d. validated h args d \<and>
      (\<forall>a\<in>set (drop 3 args). SEMICOLON \<notin> set (cstr a)) \<and>
      length (assembled args d) < CMD_BUFFER_SIZE)"
    by (auto simp: validated_def)
  with a WinMain_rejected [of h args b]
  show "exits_with (WinMain b h) 1" "\<not> child_created (WinMain b h)" by blast+
qed

theorem interpreter_path_resolution_witness:
  "(\<exists>psPath. build_psPath default_build (sample_host (sample_args []) (Spawned (Exits 0))) = Inr psPath \<and>
      cstr psPath = sample_sysdir @ [BACKSLASH] @ psRelative) \<and>
   exits_with (WinMain default_build
      ((sample_host (sample_args []) (Spawned (Exits 0))) \<lparr> file_exists := (\<lambda>path. False) \<rparr>)) 1 \<and>
   \<not> child_created (WinMain default_build
      ((sample_host (sample_args []) (Spawned (Exits 0))) \<lparr> file_exists := (\<lambda>path. False) \<rparr>))"
proof -
  let ?h = "sample_host (sample_args []) (Spawned (Exits 0))"
  let ?g = "?h \<lparr> file_exists := (\<lambda>path. False) \<rparr>"
  have c: "cstr sample_sysdir = sample_sysdir"
    by (simp add: sample_sysdir_def wstr_def cstr_def BACKSLASH_def)
  have p: "spec_interpreter_path sample_sysdir = sample_sysdir @ [BACKSLASH] @ psRelative"
    by (simp add: spec_interpreter_path_def sample_sysdir_def wstr_def BACKSLASH_def)
  have "system_directory ?h = Some sample_sysdir \<and> cstr sample_sysdir \<noteq> [] \<and>
      length (spec_interpreter_path (cstr sample_sysdir)) < MAX_PATH"
    unfolding c p by (simp add: sample_host_def sample_sysdir_def psRelative_facts MAX_PATH_def wstr_def)
  moreover have "argv ?g = Some (sample_args []) \<and>
    (system_directory ?g = None \<or>
     (\<exists>d. system_directory ?g = Some d \<and>
        (cstr d = [] \<or> MAX_PATH \<le> length (spec_interpreter_path (cstr d)) \<or>
         \<not> file_exists ?g (spec_interpreter_path (cstr d)))) \<or>
     \<not> file_exists ?g (cstr (sample_args [] ! 2)))"
    by (simp add: sample_host_def)
  ultimately show ?thesis
    using interpreter_path_resolution [of ?h sample_sysdir default_build]
      interpreter_path_resolution [of ?g _ default_build "sample_args []"]
    unfolding c p by blast
qed

text \<open>
  C9. The claim that every failure is silent in the default build does not hold: with
  \<open>ENABLE_ERROR_DIALOGS\<close> undefined, a run with too few tokens fails with code 1 and
  shows the usage help.
\<close>

theorem silent_default_build_counterexample:
  "exits_with (WinMain default_build (sample_host [wstr ''ps-launcher.exe''] (Spawned (Exits 0)))) 1 \<and>
   \<not> child_created (WinMain default_build (sample_host [wstr ''ps-launcher.exe''] (Spawned (Exits 0)))) \<and>
   dialogs (WinMain default_build (sample_host [wstr ''ps-launcher.exe''] (Spawned (Exits 0)))) = [UsageHelp]"
  by (simp add: WinMain_def sample_host_def dialogs_def child_created_def)

text \<open>
  C9, amended. In a build without \<open>ENABLE_ERROR_DIALOGS\<close> the only dialog a run can show
  is the usage help, and it shows it exactly when fewer than three tokens were parsed or
  the flag does not match; every other run, failing or not, shows nothing.
\<close>

theorem only_usage_help_is_shown:
  assumes "\<not> ENABLE_ERROR_DIALOGS b"
  shows "dialogs (WinMain b h) =
     (if \<exists>args. argv h = Some args \<and> (length args < 3 \<or> lstrcmpiW h (args ! 1) script_flag \<noteq> 0)
      then [UsageHelp] else [])"
proof (cases rule: WinMain_cases [of h b])
  case parse
  then show ?thesis using assms by (simp add: ShowError_def ShowError_dialog_def dialogs_def)
next
  case (usage args)
  then show ?thesis by (auto simp: dialogs_def)
next
  case (abort args)
  then show ?thesis using quiet_abort_events(3) [OF abort(3) assms] by auto
next
  case (launched args d)
  then have "\<not> (\<exists>args. argv h = Some args \<and> (length args < 3 \<or> lstrcmpiW h (args ! 1) script_flag \<noteq> 0))"
    by (auto simp: validated_def)
  moreover have "dialogs (launch b h (assembled args d)) = []"
    using assms by (simp add: launch_assembled dialogs_def ShowError_def ShowError_dialog_def split: spawn.split child.split)
  ultimately show ?thesis unfolding launched(4) by simp
qed

theorem only_usage_help_is_shown_witness:
  "dialogs (WinMain default_build
      ((sample_host (sample_args []) (Spawned (Exits 0))) \<lparr> file_exists := (\<lambda>path. False) \<rparr>)) = []"
proof -
  let ?g = "(sample_host (sample_args []) (Spawned (Exits 0))) \<lparr> file_exists := (\<lambda>path. False) \<rparr>"
  have b: "\<not> ENABLE_ERROR_DIALOGS default_build" by (simp add: default_build_def)
  have "\<not> (\<exists>args. argv ?g = Some args \<and> (length args < 3 \<or> lstrcmpiW ?g (args ! 1) script_flag \<noteq> 0))"
    by (simp add: sample_host_def sample_args_def lstrcmpiW_def script_flag_def ascii_nocase_def
        ascii_upper_def wstr_def cstr_def)
  with only_usage_help_is_shown [OF b, of ?g] show ?thesis by simp
qed

lemma holds_text_blank: "holds_text (replicate CMD_BUFFER_SIZE 0) 0 []"
  by (simp add: holds_text_def CMD_BUFFER_SIZE_def)


lemma length_spec_escape_quotes: "length p \<le> length (spec_escape_quotes p)"
  by (induction p) (simp_all add: spec_escape_quotes_def)

lemma length_spec_forwarded: "length p \<le> length (spec_forwarded p)"
  using length_spec_escape_quotes [of p] by (simp add: spec_forwarded_def)









text \<open>
  C2. Every append keeps inside the array: \<open>AppendStr\<close>, \<open>AppendEscaped\<close> and the inline
  quote block return failure exactly when the text and its terminator would not fit in
  the \<open>CMD_BUFFER_SIZE\<close> elements, and otherwise leave the whole text, terminated, in the
  array. No run writes outside an array; a command line handed to \<open>CreateProcessW\<close> is
  the complete prescribed text and shorter than the buffer; and a validated run whose
  prescribed text does not fit returns 1 without creating a child.
\<close>

theorem cmd_buffer_never_overflows:
  "(holds_text cmd pos s \<longrightarrow>
      appended_as (AppendStr cmd CMD_BUFFER_SIZE src pos) (s @ cstr src) \<and>
      appended_as (AppendEscaped cmd CMD_BUFFER_SIZE src pos) (s @ spec_escape_quotes (cstr src)) \<and>
      appended_as (put_quote cmd pos) (s @ [DQUOTE])) \<and>
   appended_as (put_quote (map (cmd_uninit h) [0..<CMD_BUFFER_SIZE]) 0) [DQUOTE] \<and>
   WinMain b h \<noteq> Crash \<and>
   (\<forall>cmdline\<in>set (CreateProcessW_calls (events (WinMain b h))).
      length cmdline < CMD_BUFFER_SIZE \<and> (\<exists>args d. validated h args d \<and> cmdline = assembled args d)) \<and>
   (validated h args d \<and> CMD_BUFFER_SIZE \<le> length (assembled args d) \<longrightarrow>
      exits_with (WinMain b h) 1 \<and> \<not> child_created (WinMain b h))"
proof (intro conjI impI)
  assume inv: "holds_text cmd pos s"
  show "appended_as (AppendStr cmd CMD_BUFFER_SIZE src pos) (s @ cstr src)"
    by (rule AppendStr_holds [OF inv])
  show "appended_as (AppendEscaped cmd CMD_BUFFER_SIZE src pos) (s @ spec_escape_quotes (cstr src))"
    by (rule AppendEscaped_holds [OF inv])
  show "appended_as (put_quote cmd pos) (s @ [DQUOTE])"
    by (rule put_quote_holds [OF inv])
next
  show "appended_as (put_quote (map (cmd_uninit h) [0..<CMD_BUFFER_SIZE]) 0) [DQUOTE]"
    using put_quote_step [of "map (cmd_uninit h) [0..<CMD_BUFFER_SIZE]" "[]"] by simp
next
  show "WinMain b h \<noteq> Crash"
  proof (cases rule: WinMain_cases [of h b])
    case (abort args)
    then show ?thesis using quiet_abort_events(4) by blast
  next
    case (launched args d)
    then show ?thesis using launch_not_Crash by simp
  qed simp_all
next
  show "\<forall>cmdline\<in>set (CreateProcessW_calls (events (WinMain b h))).
      length cmdline < CMD_BUFFER_SIZE \<and> (\<exists>args d. validated h args d \<and> cmdline = assembled args d)"
  proof (cases rule: WinMain_cases [of h b])
    case parse
    then show ?thesis by (simp add: ShowError_def ShowError_dialog_def)
  next
    case (usage args)
    then show ?thesis by simp
  next
    case (abort args)
    then show ?thesis using quiet_abort_events(2) [OF abort(3)] by simp
  next
    case (launched args d)
    then show ?thesis unfolding launched(4) launch_calls by auto
  qed
next
  assume a: "validated h args d \<and> CMD_BUFFER_SIZE \<le> length (assembled args d)"
  then have av: "argv h = Some args" and sd: "system_directory h = Some d"
    by (simp_all add: validated_def)
  have "\<not> (\<exists>d. validated h args d \<and>
      (\<forall>a\<in>set (drop 3 args). SEMICOLON \<notin> set (cstr a)) \<and>
      length (assembled args d) < CMD_BUFFER_SIZE)"
  proof
    assume "\<exists>d. validated h args d \<and>
      (\<forall>a\<in>set (drop 3 args). SEMICOLON \<notin> set (cstr a)) \<and>
      length (assembled args d) < CMD_BUFFER_SIZE"
    then obtain d' where "validated h args d'" "length (assembled args d') < CMD_BUFFER_SIZE"
      by blast
    moreover from this(1) sd have "d' = d" by (simp add: validated_def)
    ultimately show False using a by simp
  qed
  from WinMain_rejected [OF av this, of b]
  show "exits_with (WinMain b h) 1" "\<not> child_created (WinMain b h)" by blast+
qed

theorem cmd_buffer_never_overflows_witness:
  "appended_as (AppendStr (replicate CMD_BUFFER_SIZE 0) CMD_BUFFER_SIZE (wstr ''-Verbose'') 0)
     ([] @ cstr (wstr ''-Verbose'')) \<and>
   appended_as (AppendEscaped (replicate CMD_BUFFER_SIZE 0) CMD_BUFFER_SIZE (wstr ''-Verbose'') 0)
     ([] @ spec_escape_quotes (cstr (wstr ''-Verbose''))) \<and>
   appended_as (put_quote (replicate CMD_BUFFER_SIZE 0) 0) ([] @ [DQUOTE]) \<and>
   exits_with (WinMain default_build
     (sample_host (sample_args [replicate 1024 0x61]) (Spawned (Exits 0)))) 1 \<and>
   \<not> child_created (WinMain default_build
     (sample_host (sample_args [replicate 1024 0x61]) (Spawned (Exits 0)))) \<and>
   CreateProcessW_calls (events (WinMain default_build
     (sample_host (sample_args []) (Spawned (Exits 0))))) = [assembled (sample_args []) sample_sysdir] \<and>
   length (assembled (sample_args []) sample_sysdir) < CMD_BUFFER_SIZE"
proof -
  let ?args = "sample_args [replicate 1024 0x61]"
  let ?h = "sample_host ?args (Spawned (Exits 0))"
  let ?g = "sample_host (sample_args []) (Spawned (Exits 0))"
  have "length (cstr (replicate 1024 (0x61 :: WCHAR))) = 1024"
    by (simp add: cstr_def)
  then have big: "CMD_BUFFER_SIZE \<le> length (assembled ?args sample_sysdir)"
    using length_spec_forwarded [of "cstr (replicate 1024 (0x61 :: WCHAR))"]
    by (simp add: assembled_def spec_command_line_def sample_args_def CMD_BUFFER_SIZE_def)
  have calls: "CreateProcessW_calls (events (WinMain default_build ?g)) =
      [assembled (sample_args []) sample_sysdir]"
    unfolding sample_launch by (rule launch_calls)
  then have "assembled (sample_args []) sample_sysdir \<in>
      set (CreateProcessW_calls (events (WinMain default_build ?g)))" by simp
  with cmd_buffer_never_overflows [of _ _ _ _ ?g default_build]
  have small: "length (assembled (sample_args []) sample_sysdir) < CMD_BUFFER_SIZE" by blast
  from big sample_validated [of "[replicate 1024 0x61]" "Spawned (Exits 0)"]
    cmd_buffer_never_overflows [of "replicate CMD_BUFFER_SIZE 0" 0 "[]" "wstr ''-Verbose''" ?h
      default_build ?args sample_sysdir]
    holds_text_blank calls small
  show ?thesis by blast
qed

end
